theory Spec2Isabelle
  imports Complex_Main
begin

section \<open>Text\<close>

text \<open>
  A Python \<open>str\<close> is a sequence of Unicode code points.  The bullet character of the
  prompt (U+2022) is not a byte, so a character is its code point, a natural number, and
  a text is a list of them.  \<open>u\<close> reads an ASCII literal as such a text.
\<close>

type_synonym ustr = "nat list"

definition u :: "string \<Rightarrow> ustr" where
  "u s = map of_char s"

definition NL :: nat where "NL = 0x0A"
definition SPACE :: nat where "SPACE = 0x20"
definition QUOTE :: nat where "QUOTE = 0x22"
definition STAR :: nat where "STAR = 0x2A"
definition DASH :: nat where "DASH = 0x2D"
definition BULLET :: nat where "BULLET = 0x2022"

text \<open>
  \<open>str.strip()\<close> and the class \<open>\s\<close> of a \<open>str\<close> pattern use the same test, the
  interpreter's table of Unicode whitespace.
\<close>

definition isspace :: "nat \<Rightarrow> bool" where
  "isspace c \<longleftrightarrow>
     (0x09 \<le> c \<and> c \<le> 0x0D) \<or> (0x1C \<le> c \<and> c \<le> 0x20) \<or> c = 0x85 \<or> c = 0xA0 \<or>
     c = 0x1680 \<or> (0x2000 \<le> c \<and> c \<le> 0x200A) \<or> c = 0x2028 \<or> c = 0x2029 \<or>
     c = 0x202F \<or> c = 0x205F \<or> c = 0x3000"

definition strip :: "ustr \<Rightarrow> ustr" where
  "strip s = rev (dropWhile isspace (rev (dropWhile isspace s)))"

text \<open>\<open>s.startswith(c)\<close> for a one-character \<open>c\<close>.\<close>

definition startswith :: "ustr \<Rightarrow> nat \<Rightarrow> bool" where
  "startswith s c = (case s of [] \<Rightarrow> False | d # _ \<Rightarrow> d = c)"

text \<open>\<open>s.split('\n')\<close>: the pieces between the line feeds, never an empty list.\<close>

fun split_from :: "ustr \<Rightarrow> ustr \<Rightarrow> ustr list" where
  "split_from cur [] = [cur]"
| "split_from cur (c # cs) =
     (if c = NL then cur # split_from [] cs else split_from (cur @ [c]) cs)"

definition split_nl :: "ustr \<Rightarrow> ustr list" where
  "split_nl s = split_from [] s"

section \<open>The regular expressions of the parser\<close>

text \<open>
  A literal under \<open>re.IGNORECASE\<close> in a \<open>str\<close> pattern: the pattern letter \<open>p\<close> (here
  always an ASCII capital or the colon) matches the text character \<open>c\<close> when the lower
  case of \<open>c\<close> is the lower case of \<open>p\<close> or one of its listed equivalents: beside the
  two ASCII cases, the long s for S, the dotted capital and the dotless small i for I,
  the Kelvin sign for K.
\<close>

definition ci_char :: "nat \<Rightarrow> nat \<Rightarrow> bool" where
  "ci_char p c \<longleftrightarrow>
     c = p \<or> (0x41 \<le> p \<and> p \<le> 0x5A \<and> c = p + 0x20) \<or>
     (p = 0x53 \<and> c = 0x17F) \<or> (p = 0x49 \<and> (c = 0x130 \<or> c = 0x131)) \<or>
     (p = 0x4B \<and> c = 0x212A)"

text \<open>The literal \<open>m\<close> matches at the start of \<open>s\<close>, ignoring case.\<close>

fun ci_prefix :: "ustr \<Rightarrow> ustr \<Rightarrow> bool" where
  "ci_prefix [] s = True"
| "ci_prefix (p # ps) [] = False"
| "ci_prefix (p # ps) (c # cs) = (ci_char p c \<and> ci_prefix ps cs)"

text \<open>
  \<open>re.search\<close> of a pattern that begins with the literal \<open>m\<close> and whose remainder
  matches at every position: the match starts at the leftmost occurrence of \<open>m\<close>.  The
  result is the text after that occurrence, or \<open>None\<close> when there is none.
\<close>

fun search_after :: "ustr \<Rightarrow> ustr \<Rightarrow> ustr option" where
  "search_after m [] = (if ci_prefix m [] then Some [] else None)"
| "search_after m (c # cs) =
     (if ci_prefix m (c # cs) then Some (drop (length m) (c # cs)) else search_after m cs)"

definition SUMMARY_MARK :: ustr where "SUMMARY_MARK = u ''SUMMARY:''"
definition EXPERIENCE_MARK :: ustr where "EXPERIENCE_MARK = u ''EXPERIENCE:''"

text \<open>
  \<open>$\<close> without \<open>re.MULTILINE\<close> holds at the end of the text and just before a line feed
  that is its last character.
\<close>

definition at_end :: "ustr \<Rightarrow> bool" where
  "at_end rest \<longleftrightarrow> rest = [] \<or> rest = [NL]"

text \<open>
  Group 1 of \<open>SUMMARY:(.*?)(?=EXPERIENCE:|$)\<close> with \<open>re.DOTALL\<close>: the shortest span after
  the marker that is followed by the other marker or by \<open>$\<close>.
\<close>

fun summary_group :: "ustr \<Rightarrow> ustr" where
  "summary_group [] = []"
| "summary_group (c # cs) =
     (if ci_prefix EXPERIENCE_MARK (c # cs) \<or> at_end (c # cs) then []
      else c # summary_group cs)"

text \<open>Group 1 of \<open>EXPERIENCE:(.*?)$\<close> with \<open>re.DOTALL\<close>: the shortest span up to \<open>$\<close>.\<close>

fun experience_group :: "ustr \<Rightarrow> ustr" where
  "experience_group [] = []"
| "experience_group (c # cs) = (if at_end (c # cs) then [] else c # experience_group cs)"

text \<open>\<open>re.sub(r'^\s*\<bullet>\s*', '', s)\<close>: \<open>^\<close> holds at the start of the text only.\<close>

definition remove_leading_bullet :: "ustr \<Rightarrow> ustr" where
  "remove_leading_bullet s =
     (let t = dropWhile isspace s
      in if startswith t BULLET then dropWhile isspace (drop 1 t) else s)"

text \<open>\<open>re.sub(r'\s+', ' ', s)\<close>: every maximal run of whitespace becomes one space.\<close>

function collapse_spaces :: "ustr \<Rightarrow> ustr" where
  "collapse_spaces [] = []"
| "collapse_spaces (c # cs) =
     (if isspace c then SPACE # collapse_spaces (dropWhile isspace cs)
      else c # collapse_spaces cs)"
  by pat_completeness auto
termination
  by (relation "measure length") (auto simp: length_dropWhile_le less_Suc_eq_le)

text \<open>
  \<open>re.split(r'\n(?=[^\s\<bullet>\-*])', s)\<close>: the text is cut at every line feed whose next
  character exists and is neither whitespace nor one of the three bullet markers.
\<close>

definition company_start :: "nat \<Rightarrow> bool" where
  "company_start c \<longleftrightarrow> \<not> isspace c \<and> c \<noteq> BULLET \<and> c \<noteq> DASH \<and> c \<noteq> STAR"

fun company_split_from :: "ustr \<Rightarrow> ustr \<Rightarrow> ustr list" where
  "company_split_from cur [] = [cur]"
| "company_split_from cur (c # cs) =
     (if c = NL \<and> (case cs of [] \<Rightarrow> False | d # _ \<Rightarrow> company_start d)
      then cur # company_split_from [] cs
      else company_split_from (cur @ [c]) cs)"

definition company_split :: "ustr \<Rightarrow> ustr list" where
  "company_split s = company_split_from [] s"

text \<open>\<open>re.sub(r'[*"]', '', s)\<close>.\<close>

definition remove_special :: "ustr \<Rightarrow> ustr" where
  "remove_special s = filter (\<lambda>c. c \<noteq> STAR \<and> c \<noteq> QUOTE) s"

section \<open>The response parser\<close>

datatype pyerror = TypeError | AttributeError | KeyError | IndexError

record experience =
  company :: ustr
  bulletPoints :: "ustr list"

record tailored =
  summary :: ustr
  workExperience :: "experience list"

text \<open>\<open>lines[0]\<close> raises on an empty list.\<close>

definition first_item :: "'a list \<Rightarrow> pyerror + 'a" where
  "first_item xs = (case xs of [] \<Rightarrow> Inl IndexError | x # _ \<Rightarrow> Inr x)"

text \<open>The summary branch: the value stored in \<open>result['summary']\<close> before the last pass.\<close>

definition parse_summary :: "ustr \<Rightarrow> ustr" where
  "parse_summary ai_response =
     (case search_after SUMMARY_MARK ai_response of
        None \<Rightarrow> []
      | Some rest \<Rightarrow>
          collapse_spaces (remove_leading_bullet (strip (summary_group rest))))"

text \<open>The loop over \<open>lines[1:]\<close>, with the list \<open>bullet_points\<close> it appends to.\<close>

fun collect_bullets :: "ustr list \<Rightarrow> ustr list \<Rightarrow> ustr list" where
  "collect_bullets [] bullet_points = bullet_points"
| "collect_bullets (l # ls) bullet_points =
     (let line = strip l
      in if startswith line BULLET \<or> startswith line DASH \<or> startswith line STAR
         then (let point = strip (drop 1 line)
               in if point \<noteq> [] then collect_bullets ls (bullet_points @ [point])
                  else collect_bullets ls bullet_points)
         else collect_bullets ls bullet_points)"

text \<open>
  One round of the loop over \<open>company_sections\<close>: \<open>Inr None\<close> when the round appends
  nothing (a \<open>continue\<close>, or the final test fails), \<open>Inr (Some e)\<close> when it appends \<open>e\<close>.
\<close>

definition section_entry :: "ustr \<Rightarrow> pyerror + experience option" where
  "section_entry section =
     (if strip section = [] then Inr None
      else let lines = split_nl (strip section)
        in if lines = [] then Inr None
           else case first_item lines of
                  Inl e \<Rightarrow> Inl e
                | Inr l0 \<Rightarrow>
                    (let company_name = strip l0;
                         bullet_points = collect_bullets (drop 1 lines) []
                     in if company_name \<noteq> [] \<and> bullet_points \<noteq> []
                        then Inr (Some \<lparr>company = company_name,
                                        bulletPoints = take 4 bullet_points\<rparr>)
                        else Inr None))"

fun section_loop :: "ustr list \<Rightarrow> experience list \<Rightarrow> pyerror + experience list" where
  "section_loop [] work = Inr work"
| "section_loop (section # rest) work =
     (case section_entry section of
        Inl e \<Rightarrow> Inl e
      | Inr None \<Rightarrow> section_loop rest work
      | Inr (Some e) \<Rightarrow> section_loop rest (work @ [e]))"

text \<open>The list \<open>company_sections\<close>; empty when the text has no experience marker.\<close>

definition company_sections :: "ustr \<Rightarrow> ustr list" where
  "company_sections ai_response =
     (case search_after EXPERIENCE_MARK ai_response of
        None \<Rightarrow> []
      | Some rest \<Rightarrow> company_split (strip (experience_group rest)))"

definition strip_entry :: "experience \<Rightarrow> experience" where
  "strip_entry ex = ex\<lparr>bulletPoints := map remove_special (bulletPoints ex)\<rparr>"

definition parse_ai_response :: "ustr \<Rightarrow> pyerror + tailored" where
  "parse_ai_response ai_response =
     (case section_loop (company_sections ai_response) [] of
        Inl e \<Rightarrow> Inl e
      | Inr work \<Rightarrow>
          Inr \<lparr>summary = remove_special (parse_summary ai_response),
               workExperience = map strip_entry work\<rparr>)"

section \<open>JSON values and the operations of Python on them\<close>

text \<open>
  The resume and the request body are what the JSON decoder returns: \<open>None\<close>, a
  \<open>bool\<close>, an \<open>int\<close>, a \<open>float\<close> (here a finite one), a \<open>str\<close>, a \<open>list\<close> or a
  \<open>dict\<close> with \<open>str\<close> keys.  A \<open>dict\<close> is the list of its items in insertion order,
  looked up with \<open>map_of\<close>.
\<close>

datatype json =
    JNull
  | JBool bool
  | JInt int
  | JFloat real
  | JStr ustr
  | JArr "json list"
  | JObj "(ustr \<times> json) list"

definition pybind :: "pyerror + 'a \<Rightarrow> ('a \<Rightarrow> pyerror + 'b) \<Rightarrow> pyerror + 'b" where
  "pybind x f = (case x of Inl e \<Rightarrow> Inl e | Inr v \<Rightarrow> f v)"

text \<open>The truth value of an object in a condition.\<close>

fun truthy :: "json \<Rightarrow> bool" where
  "truthy JNull = False"
| "truthy (JBool b) = b"
| "truthy (JInt i) = (i \<noteq> 0)"
| "truthy (JFloat x) = (x \<noteq> 0)"
| "truthy (JStr s) = (s \<noteq> [])"
| "truthy (JArr xs) = (xs \<noteq> [])"
| "truthy (JObj kvs) = (kvs \<noteq> [])"

fun is_prefix :: "ustr \<Rightarrow> ustr \<Rightarrow> bool" where
  "is_prefix [] s = True"
| "is_prefix (p # ps) [] = False"
| "is_prefix (p # ps) (c # cs) = (p = c \<and> is_prefix ps cs)"

fun substring :: "ustr \<Rightarrow> ustr \<Rightarrow> bool" where
  "substring k [] = is_prefix k []"
| "substring k (c # cs) = (is_prefix k (c # cs) \<or> substring k cs)"

text \<open>
  \<open>key in x\<close> for a \<open>str\<close> key: a key of a \<open>dict\<close>, an element of a \<open>list\<close>, a
  substring of a \<open>str\<close>; any other object is not a container.
\<close>

fun py_in :: "ustr \<Rightarrow> json \<Rightarrow> pyerror + bool" where
  "py_in key (JObj kvs) = Inr (map_of kvs key \<noteq> None)"
| "py_in key (JArr xs) = Inr (JStr key \<in> set xs)"
| "py_in key (JStr s) = Inr (substring key s)"
| "py_in key _ = Inl TypeError"

text \<open>\<open>x[key]\<close> for a \<open>str\<close> key.\<close>

fun py_getitem :: "json \<Rightarrow> ustr \<Rightarrow> pyerror + json" where
  "py_getitem (JObj kvs) key =
     (case map_of kvs key of None \<Rightarrow> Inl KeyError | Some v \<Rightarrow> Inr v)"
| "py_getitem _ key = Inl TypeError"

text \<open>\<open>x.get(key, dflt)\<close>: only a \<open>dict\<close> has the method.\<close>

fun py_get :: "json \<Rightarrow> ustr \<Rightarrow> json \<Rightarrow> pyerror + json" where
  "py_get (JObj kvs) key dflt =
     Inr (case map_of kvs key of None \<Rightarrow> dflt | Some v \<Rightarrow> v)"
| "py_get _ key dflt = Inl AttributeError"

text \<open>
  The items a \<open>for\<close> loop over \<open>x\<close> visits: the elements of a \<open>list\<close>, the characters
  of a \<open>str\<close>, the keys of a \<open>dict\<close>.
\<close>

fun py_iter :: "json \<Rightarrow> pyerror + json list" where
  "py_iter (JArr xs) = Inr xs"
| "py_iter (JStr s) = Inr (map (\<lambda>c. JStr [c]) s)"
| "py_iter (JObj kvs) = Inr (map (\<lambda>kv. JStr (fst kv)) kvs)"
| "py_iter _ = Inl TypeError"

text \<open>
  A replacement field \<open>{x}\<close> of an f-string is \<open>str(x)\<close>: a \<open>str\<close> is itself; the text
  of any other object is left to \<open>py_str\<close>, a parameter of the formatter.
\<close>

definition fstr :: "(json \<Rightarrow> ustr) \<Rightarrow> json \<Rightarrow> ustr" where
  "fstr py_str v = (case v of JStr s \<Rightarrow> s | _ \<Rightarrow> py_str v)"

text \<open>\<open>"\n".join(xs)\<close>.\<close>

fun join_nl :: "ustr list \<Rightarrow> ustr" where
  "join_nl [] = []"
| "join_nl [x] = x"
| "join_nl (x # y # ys) = x @ NL # join_nl (y # ys)"

section \<open>The resume formatter\<close>

text \<open>
  Each block of \<open>format_resume_for_ai\<close> is modelled by the items it appends to
  \<open>formatted\<close>, or by the exception that ends the call.  \<open>seq_lines\<close> runs blocks one
  after the other; the first exception wins.
\<close>

fun seq_lines :: "(pyerror + ustr list) list \<Rightarrow> pyerror + ustr list" where
  "seq_lines [] = Inr []"
| "seq_lines (x # xs) =
     (case x of
        Inl e \<Rightarrow> Inl e
      | Inr a \<Rightarrow> (case seq_lines xs of Inl e \<Rightarrow> Inl e | Inr b \<Rightarrow> Inr (a @ b)))"

definition for_lines :: "('a \<Rightarrow> pyerror + ustr list) \<Rightarrow> 'a list \<Rightarrow> pyerror + ustr list" where
  "for_lines body xs = seq_lines (map body xs)"

definition NA :: ustr where "NA = u ''N/A''"

text \<open>\<open>formatted.append(f"<label>{obj.get(key, 'N/A')}")\<close>.\<close>

definition labelled :: "(json \<Rightarrow> ustr) \<Rightarrow> json \<Rightarrow> ustr \<times> ustr \<Rightarrow> pyerror + ustr list" where
  "labelled py_str obj lk =
     pybind (py_get obj (snd lk) (JStr NA)) (\<lambda>v. Inr [fst lk @ fstr py_str v])"

text \<open>The labels and keys of the header lines, in the order of the \<open>append\<close> calls.\<close>

definition profile_fields :: "(ustr \<times> ustr) list" where
  "profile_fields =
     [(u ''Name: '', u ''name''), (u ''Email: '', u ''email''), (u ''Phone: '', u ''phone''),
      (u ''Location: '', u ''location''), (u ''URL: '', u ''url''),
      (u ''Summary: '', u ''summary'')]"

definition work_fields :: "(ustr \<times> ustr) list" where
  "work_fields =
     [(u ''Company: '', u ''company''), (u ''Job Title: '', u ''jobTitle''),
      (u ''Date: '', u ''date'')]"

definition education_fields :: "(ustr \<times> ustr) list" where
  "education_fields =
     [(u ''School: '', u ''school''), (u ''Degree: '', u ''degree''), (u ''Date: '', u ''date'')]"

definition project_fields :: "(ustr \<times> ustr) list" where
  "project_fields = [(u ''Project: '', u ''project''), (u ''Date: '', u ''date'')]"

definition PROFILE_LABEL :: ustr where "PROFILE_LABEL = u ''PROFILE:''"
definition WORK_LABEL :: ustr where "WORK_LABEL = u ''WORK EXPERIENCE:''"
definition EDUCATION_LABEL :: ustr where "EDUCATION_LABEL = u ''EDUCATION:''"
definition SKILLS_LABEL :: ustr where "SKILLS_LABEL = u ''SKILLS:''"
definition PROJECTS_LABEL :: ustr where "PROJECTS_LABEL = u ''PROJECTS:''"

definition description_line :: "(json \<Rightarrow> ustr) \<Rightarrow> json \<Rightarrow> ustr" where
  "description_line py_str desc = u ''- '' @ fstr py_str desc"

definition profile_lines :: "(json \<Rightarrow> ustr) \<Rightarrow> json \<Rightarrow> pyerror + ustr list" where
  "profile_lines py_str resume_data =
     pybind (py_in (u ''profile'') resume_data) (\<lambda>present.
       if \<not> present then Inr []
       else pybind (py_getitem resume_data (u ''profile'')) (\<lambda>profile.
         seq_lines ([Inr [PROFILE_LABEL]] @ map (labelled py_str profile) profile_fields
                    @ [Inr [[]]])))"

text \<open>
  \<open>if 'descriptions' in ex and ex['descriptions']:\<close> with its loop, the same in the
  three entry loops.
\<close>

definition descriptions_lines :: "(json \<Rightarrow> ustr) \<Rightarrow> json \<Rightarrow> pyerror + ustr list" where
  "descriptions_lines py_str ex =
     pybind (py_in (u ''descriptions'') ex) (\<lambda>present.
       if \<not> present then Inr []
       else pybind (py_getitem ex (u ''descriptions'')) (\<lambda>ds.
         if \<not> truthy ds then Inr []
         else pybind (py_iter ds) (\<lambda>items.
           Inr (u ''Descriptions:'' # map (description_line py_str) items))))"

text \<open>One round of an entry loop: the header lines, the descriptions, the empty line.\<close>

definition entry_lines ::
    "(json \<Rightarrow> ustr) \<Rightarrow> (ustr \<times> ustr) list \<Rightarrow> json \<Rightarrow> pyerror + ustr list" where
  "entry_lines py_str header ex =
     seq_lines (map (labelled py_str ex) header @ [descriptions_lines py_str ex, Inr [[]]])"

text \<open>
  \<open>if key in resume_data and resume_data[key]:\<close> with the label and the entry loop: the
  sections of work experience, education and projects.
\<close>

definition list_section ::
    "(json \<Rightarrow> ustr) \<Rightarrow> ustr \<Rightarrow> ustr \<Rightarrow> (ustr \<times> ustr) list \<Rightarrow> json \<Rightarrow> pyerror + ustr list" where
  "list_section py_str key label header resume_data =
     pybind (py_in key resume_data) (\<lambda>present.
       if \<not> present then Inr []
       else pybind (py_getitem resume_data key) (\<lambda>entries.
         if \<not> truthy entries then Inr []
         else pybind (py_iter entries) (\<lambda>items.
           seq_lines [Inr [label], for_lines (entry_lines py_str header) items])))"

text \<open>\<open>if skill.get('skill'): formatted.append(f"- {skill.get('skill')}")\<close>.\<close>

definition featured_line :: "(json \<Rightarrow> ustr) \<Rightarrow> json \<Rightarrow> pyerror + ustr list" where
  "featured_line py_str skill =
     pybind (py_get skill (u ''skill'') JNull) (\<lambda>v.
       if truthy v then Inr [u ''- '' @ fstr py_str v] else Inr [])"

definition featured_lines :: "(json \<Rightarrow> ustr) \<Rightarrow> json \<Rightarrow> pyerror + ustr list" where
  "featured_lines py_str skills =
     pybind (py_in (u ''featuredSkills'') skills) (\<lambda>present.
       if \<not> present then Inr []
       else pybind (py_getitem skills (u ''featuredSkills'')) (\<lambda>fs.
         pybind (py_iter fs) (\<lambda>items. for_lines (featured_line py_str) items)))"

definition skill_description_lines :: "(json \<Rightarrow> ustr) \<Rightarrow> json \<Rightarrow> pyerror + ustr list" where
  "skill_description_lines py_str skills =
     pybind (py_in (u ''descriptions'') skills) (\<lambda>present.
       if \<not> present then Inr []
       else pybind (py_getitem skills (u ''descriptions'')) (\<lambda>ds.
         pybind (py_iter ds) (\<lambda>items. Inr (map (description_line py_str) items))))"

definition skills_lines :: "(json \<Rightarrow> ustr) \<Rightarrow> json \<Rightarrow> pyerror + ustr list" where
  "skills_lines py_str resume_data =
     pybind (py_in (u ''skills'') resume_data) (\<lambda>present.
       if \<not> present then Inr []
       else pybind (py_getitem resume_data (u ''skills'')) (\<lambda>skills.
         seq_lines [Inr [SKILLS_LABEL], featured_lines py_str skills,
                    skill_description_lines py_str skills, Inr [[]]]))"

text \<open>The list \<open>formatted\<close> at the \<open>return\<close>.\<close>

definition formatted_lines :: "(json \<Rightarrow> ustr) \<Rightarrow> json \<Rightarrow> pyerror + ustr list" where
  "formatted_lines py_str resume_data =
     seq_lines
       [profile_lines py_str resume_data,
        list_section py_str (u ''workExperiences'') WORK_LABEL work_fields resume_data,
        list_section py_str (u ''educations'') EDUCATION_LABEL education_fields resume_data,
        skills_lines py_str resume_data,
        list_section py_str (u ''projects'') PROJECTS_LABEL project_fields resume_data]"

definition format_resume_for_ai :: "(json \<Rightarrow> ustr) \<Rightarrow> json \<Rightarrow> pyerror + ustr" where
  "format_resume_for_ai py_str resume_data =
     pybind (formatted_lines py_str resume_data) (\<lambda>formatted. Inr (join_nl formatted))"

section \<open>The request handler\<close>

text \<open>
  \<open>analyze_resume\<close> reads the key found in the environment at start-up and the decoded
  body of the request, and calls the completion API at most once.  The API is a
  parameter: \<open>create resume_text job_description\<close> is what the call made with these two
  texts in the prompt template gives, the content of the first choice or an exception.
  The handler returns its response and the list of the calls it made.  \<open>exc_str\<close> is
  \<open>str(e)\<close> of an exception.  The body is given decoded (\<open>JNull\<close> when
  \<open>request.json\<close> is \<open>None\<close>); a request whose body cannot be decoded is outside
  the model.
\<close>

datatype completion = Content ustr | OpenAIError ustr | OtherError ustr

record response =
  status :: nat
  body :: "(ustr \<times> json) list"

definition json_of_experience :: "experience \<Rightarrow> json" where
  "json_of_experience e =
     JObj [(u ''company'', JStr (company e)),
           (u ''bulletPoints'', JArr (map JStr (bulletPoints e)))]"

definition json_of_tailored :: "tailored \<Rightarrow> json" where
  "json_of_tailored t =
     JObj [(u ''summary'', JStr (summary t)),
           (u ''workExperience'', JArr (map json_of_experience (workExperience t)))]"

text \<open>The body and status of the two \<open>except\<close> branches.\<close>

definition failure :: "ustr \<Rightarrow> response" where
  "failure msg =
     \<lparr>status = 500,
      body = [(u ''error'', JStr msg), (u ''success'', JBool False),
              (u ''tailoredContent'', JNull)]\<rparr>"

text \<open>
  The validation of the body and the two subscripts after it: \<open>Inr None\<close> is the branch
  that answers 400.
\<close>

definition request_fields :: "json \<Rightarrow> pyerror + (json \<times> json) option" where
  "request_fields data =
     (if \<not> truthy data then Inr None
      else pybind (py_in (u ''resume'') data) (\<lambda>has_resume.
        if \<not> has_resume then Inr None
        else pybind (py_in (u ''jobDescription'') data) (\<lambda>has_job.
          if \<not> has_job then Inr None
          else pybind (py_getitem data (u ''resume'')) (\<lambda>resume_data.
            pybind (py_getitem data (u ''jobDescription'')) (\<lambda>job_description.
              Inr (Some (resume_data, job_description)))))))"

definition analyze_resume ::
    "(json \<Rightarrow> ustr) \<Rightarrow> (pyerror \<Rightarrow> ustr) \<Rightarrow> (ustr \<Rightarrow> ustr \<Rightarrow> completion) \<Rightarrow>
     ustr option \<Rightarrow> json \<Rightarrow> response \<times> (ustr \<times> ustr) list" where
  "analyze_resume py_str exc_str create openai_api_key data =
     (if openai_api_key = None \<or> openai_api_key = Some []
      then (\<lparr>status = 500,
             body = [(u ''error'', JStr (u ''OpenAI API key not found. Please check your .env file.'')),
                     (u ''details'', JStr (u ''Add OPENAI_API_KEY=your_key_here to your .env file''))]\<rparr>,
            [])
      else case request_fields data of
        Inl e \<Rightarrow> (failure (exc_str e), [])
      | Inr None \<Rightarrow>
          (\<lparr>status = 400,
            body = [(u ''error'', JStr (u ''Missing resume or job description data''))]\<rparr>, [])
      | Inr (Some (resume_data, job_description)) \<Rightarrow>
          (case format_resume_for_ai py_str resume_data of
             Inl e \<Rightarrow> (failure (exc_str e), [])
           | Inr resume_text \<Rightarrow>
               (let job_text = fstr py_str job_description;
                    calls = [(resume_text, job_text)]
                in case create resume_text job_text of
                     OpenAIError msg \<Rightarrow> (failure (u ''OpenAI API error: '' @ msg), calls)
                   | OtherError msg \<Rightarrow> (failure msg, calls)
                   | Content ai_content \<Rightarrow>
                       (case parse_ai_response ai_content of
                          Inl e \<Rightarrow> (failure (exc_str e), calls)
                        | Inr tailored_content \<Rightarrow>
                            (\<lparr>status = 200,
                              body = [(u ''success'', JBool True),
                                      (u ''tailoredContent'',
                                       json_of_tailored tailored_content)]\<rparr>,
                             calls)))))"

section \<open>The blocks of the experience section\<close>

text \<open>
  What one round of the loop over \<open>company_sections\<close> computes from its block: the
  value of \<open>company_name\<close>, and the list \<open>bullet_points\<close> at the end of the inner loop.
\<close>

definition section_company :: "ustr \<Rightarrow> ustr" where
  "section_company section = (case split_nl (strip section) of [] \<Rightarrow> [] | l # _ \<Rightarrow> strip l)"

definition section_bullets :: "ustr \<Rightarrow> ustr list" where
  "section_bullets section = collect_bullets (drop 1 (split_nl (strip section))) []"

definition kept_entry :: "ustr \<Rightarrow> experience" where
  "kept_entry section =
     \<lparr>company = section_company section, bulletPoints = take 4 (section_bullets section)\<rparr>"

text \<open>
  The bullet points that one line of a block adds to \<open>bullet_points\<close>: none, or the
  content after its marker.
\<close>

definition line_points :: "ustr \<Rightarrow> ustr list" where
  "line_points l =
     (let line = strip l
      in if startswith line BULLET \<or> startswith line DASH \<or> startswith line STAR
         then (let point = strip (drop 1 line) in if point \<noteq> [] then [point] else [])
         else [])"

section \<open>Occurrence of a marker\<close>

text \<open>
  The text \<open>s\<close> contains the literal \<open>m\<close>, compared as \<open>re.IGNORECASE\<close> compares, at
  some position.
\<close>

fun contains_ci :: "ustr \<Rightarrow> ustr \<Rightarrow> bool" where
  "contains_ci m [] = ci_prefix m []"
| "contains_ci m (c # cs) = (ci_prefix m (c # cs) \<or> contains_ci m cs)"

section \<open>A normalised summary\<close>

text \<open>
  \<open>trimmed\<close>: no whitespace at either end.  \<open>single_spaced\<close>: every whitespace
  character is a space, and the character after it, if any, is not whitespace.
\<close>

definition trimmed :: "ustr \<Rightarrow> bool" where
  "trimmed s \<longleftrightarrow> (case s of [] \<Rightarrow> True | c # _ \<Rightarrow> \<not> isspace c \<and> \<not> isspace (last s))"

fun single_spaced :: "ustr \<Rightarrow> bool" where
  "single_spaced [] = True"
| "single_spaced (c # cs) =
     ((isspace c \<longrightarrow> c = SPACE \<and> (case cs of [] \<Rightarrow> True | d # _ \<Rightarrow> \<not> isspace d))
      \<and> single_spaced cs)"

section \<open>A body with both keys\<close>

text \<open>The decoded body is a \<open>dict\<close> that has the keys \<open>resume\<close> and \<open>jobDescription\<close>.\<close>

definition has_both_keys :: "json \<Rightarrow> bool" where
  "has_both_keys data =
     (case data of
        JObj kvs \<Rightarrow> map_of kvs (u ''resume'') \<noteq> None \<and> map_of kvs (u ''jobDescription'') \<noteq> None
      | _ \<Rightarrow> False)"

section \<open>The resumes on which the formatter returns\<close>

text \<open>
  The shape of a resume \<open>dict\<close> that the formatter reads without raising; every field may
  be missing.
  \<^item> \<open>profile\<close> is a \<open>dict\<close>.
  \<^item> \<open>workExperiences\<close>, \<open>educations\<close> and \<open>projects\<close> are guarded by
    \<open>key in d and d[key]\<close>: the value is false in a condition (\<open>None\<close>, \<open>False\<close>, zero, an
    empty string, list or \<open>dict\<close>), or it is a list of entries.  An entry is a \<open>dict\<close>
    whose \<open>descriptions\<close>, under the same guard, is false in a condition or can be
    iterated (a list, a string, a \<open>dict\<close>).
  \<^item> \<open>skills\<close> is tested with \<open>in\<close> and subscripted without a guard on the value: it is
    a \<open>dict\<close> whose \<open>featuredSkills\<close> is a list of \<open>dict\<close>s (or an empty string or
    \<open>dict\<close>, which have no items) and whose \<open>descriptions\<close> can be iterated; or it is
    a list or a string in which \<open>in\<close> finds neither key.
  The values of the other fields are not constrained.
\<close>

definition is_obj :: "json \<Rightarrow> bool" where
  "is_obj v = (case v of JObj _ \<Rightarrow> True | _ \<Rightarrow> False)"

definition field_ok :: "(ustr \<times> json) list \<Rightarrow> ustr \<Rightarrow> (json \<Rightarrow> bool) \<Rightarrow> bool" where
  "field_ok kvs key ok = (case map_of kvs key of None \<Rightarrow> True | Some v \<Rightarrow> ok v)"

definition iterable :: "json \<Rightarrow> bool" where
  "iterable v = (case v of JArr _ \<Rightarrow> True | JStr _ \<Rightarrow> True | JObj _ \<Rightarrow> True | _ \<Rightarrow> False)"

definition falsy_or :: "(json \<Rightarrow> bool) \<Rightarrow> json \<Rightarrow> bool" where
  "falsy_or ok v \<longleftrightarrow> (truthy v \<longrightarrow> ok v)"

definition ok_entry :: "json \<Rightarrow> bool" where
  "ok_entry e =
     (case e of JObj kvs \<Rightarrow> field_ok kvs (u ''descriptions'') (falsy_or iterable) | _ \<Rightarrow> False)"

definition ok_entries :: "json \<Rightarrow> bool" where
  "ok_entries v = (case v of JArr es \<Rightarrow> list_all ok_entry es | _ \<Rightarrow> False)"

definition ok_featured :: "json \<Rightarrow> bool" where
  "ok_featured v =
     (case v of JArr xs \<Rightarrow> list_all is_obj xs | JStr s \<Rightarrow> s = [] | JObj kvs \<Rightarrow> kvs = []
      | _ \<Rightarrow> False)"

definition key_ok :: "ustr \<Rightarrow> (json \<Rightarrow> bool) \<Rightarrow> json \<Rightarrow> bool" where
  "key_ok key ok x =
     (case x of
        JObj kvs \<Rightarrow> field_ok kvs key ok
      | JArr xs \<Rightarrow> JStr key \<notin> set xs
      | JStr s \<Rightarrow> \<not> substring key s
      | _ \<Rightarrow> False)"

definition ok_skills :: "json \<Rightarrow> bool" where
  "ok_skills sk \<longleftrightarrow>
     key_ok (u ''featuredSkills'') ok_featured sk \<and> key_ok (u ''descriptions'') iterable sk"

definition ok_resume :: "(ustr \<times> json) list \<Rightarrow> bool" where
  "ok_resume kvs \<longleftrightarrow>
     field_ok kvs (u ''profile'') is_obj \<and>
     field_ok kvs (u ''workExperiences'') (falsy_or ok_entries) \<and>
     field_ok kvs (u ''educations'') (falsy_or ok_entries) \<and>
     field_ok kvs (u ''skills'') ok_skills \<and>
     field_ok kvs (u ''projects'') (falsy_or ok_entries)"

text \<open>
  The items of a \<open>dict\<close> without the field \<open>key\<close> when its value is false in a
  condition, unchanged otherwise; and an entry without its \<open>descriptions\<close> when that
  value is false in a condition.
\<close>

definition without_falsy :: "ustr \<Rightarrow> (ustr \<times> json) list \<Rightarrow> (ustr \<times> json) list" where
  "without_falsy key kvs =
     (case map_of kvs key of
        None \<Rightarrow> kvs
      | Some v \<Rightarrow> if truthy v then kvs else filter (\<lambda>kv. fst kv \<noteq> key) kvs)"

definition entry_without_falsy :: "json \<Rightarrow> json" where
  "entry_without_falsy x =
     (case x of JObj e \<Rightarrow> JObj (without_falsy (u ''descriptions'') e) | _ \<Rightarrow> x)"

section \<open>The section labels and when a section is emitted\<close>

text \<open>
  \<open>section_emitted kvs label\<close>: the resume with the items \<open>kvs\<close> has the source field of
  the section, and for the three sections of entries its value is not empty (is true in a
  condition).  \<open>header_fields\<close> are all the labelled header lines, \<open>entry_sections\<close> the
  keys of the three sections of entries with their header lines.
\<close>

definition section_labels :: "ustr list" where
  "section_labels = [PROFILE_LABEL, WORK_LABEL, EDUCATION_LABEL, SKILLS_LABEL, PROJECTS_LABEL]"

definition present :: "(ustr \<times> json) list \<Rightarrow> ustr \<Rightarrow> bool" where
  "present kvs key \<longleftrightarrow> map_of kvs key \<noteq> None"

definition nonempty :: "(ustr \<times> json) list \<Rightarrow> ustr \<Rightarrow> bool" where
  "nonempty kvs key = (case map_of kvs key of None \<Rightarrow> False | Some v \<Rightarrow> truthy v)"

definition section_emitted :: "(ustr \<times> json) list \<Rightarrow> ustr \<Rightarrow> bool" where
  "section_emitted kvs label \<longleftrightarrow>
     label = PROFILE_LABEL \<and> present kvs (u ''profile'') \<or>
     label = WORK_LABEL \<and> nonempty kvs (u ''workExperiences'') \<or>
     label = EDUCATION_LABEL \<and> nonempty kvs (u ''educations'') \<or>
     label = SKILLS_LABEL \<and> present kvs (u ''skills'') \<or>
     label = PROJECTS_LABEL \<and> nonempty kvs (u ''projects'')"

definition header_fields :: "(ustr \<times> ustr) list" where
  "header_fields = profile_fields @ work_fields @ education_fields @ project_fields"

definition entry_sections :: "(ustr \<times> (ustr \<times> ustr) list) list" where
  "entry_sections =
     [(u ''workExperiences'', work_fields), (u ''educations'', education_fields),
      (u ''projects'', project_fields)]"

section \<open>Evaluation on concrete inputs\<close>

lemmas chars = NL_def SPACE_def QUOTE_def STAR_def DASH_def BULLET_def

lemmas parser_evals =
  u_def chars isspace_def strip_def startswith_def split_nl_def ci_char_def SUMMARY_MARK_def
  EXPERIENCE_MARK_def at_end_def remove_leading_bullet_def company_start_def company_split_def
  remove_special_def first_item_def parse_summary_def section_entry_def company_sections_def
  strip_entry_def parse_ai_response_def section_company_def section_bullets_def kept_entry_def
  line_points_def

lemmas json_evals =
  pybind_def fstr_def NA_def for_lines_def labelled_def profile_fields_def work_fields_def
  education_fields_def project_fields_def PROFILE_LABEL_def WORK_LABEL_def EDUCATION_LABEL_def
  SKILLS_LABEL_def PROJECTS_LABEL_def description_line_def profile_lines_def
  descriptions_lines_def entry_lines_def list_section_def featured_line_def featured_lines_def
  skill_description_lines_def skills_lines_def formatted_lines_def format_resume_for_ai_def
  json_of_experience_def json_of_tailored_def failure_def request_fields_def analyze_resume_def

lemmas shape_evals =
  is_obj_def field_ok_def iterable_def falsy_or_def ok_entry_def ok_entries_def ok_featured_def
  key_ok_def ok_skills_def ok_resume_def without_falsy_def entry_without_falsy_def

lemmas label_defs =
  section_labels_def PROFILE_LABEL_def WORK_LABEL_def EDUCATION_LABEL_def SKILLS_LABEL_def
  PROJECTS_LABEL_def

lemmas field_defs =
  header_fields_def profile_fields_def work_fields_def education_fields_def project_fields_def

section \<open>The parser as a function of the blocks\<close>

lemma isspace_NL: "isspace NL"
  by (simp add: isspace_def NL_def)

lemma strip_Cons_nonspace:
  "\<not> isspace c \<Longrightarrow> strip (c # t) = c # rev (dropWhile isspace (rev t))"
proof -
  assume c: "\<not> isspace c"
  have "dropWhile isspace (rev t @ [c]) = dropWhile isspace (rev t) @ [c]"
  proof (cases "\<forall>x\<in>set (rev t). isspace x")
    case True
    then have "dropWhile isspace (rev t) = []" by simp
    moreover have "dropWhile isspace (rev t @ [c]) = dropWhile isspace [c]"
      by (rule dropWhile_append2) (use True in blast)
    ultimately show ?thesis using c by simp
  next
    case False
    then obtain x where "x \<in> set (rev t)" "\<not> isspace x" by blast
    then show ?thesis by (rule dropWhile_append1)
  qed
  with c show ?thesis by (simp add: strip_def)
qed

lemma strip_nonempty_shape:
  assumes "strip x \<noteq> []"
  shows "\<exists>c t. strip x = c # t \<and> \<not> isspace c"
proof -
  let ?y = "dropWhile isspace x"
  have y: "?y \<noteq> []"
  proof
    assume e: "?y = []"
    have "strip x = []" unfolding strip_def e by simp
    with assms show False by simp
  qed
  then obtain c t where ct: "?y = c # t" by (cases ?y) auto
  have c: "\<not> isspace c" using hd_dropWhile [OF y] ct by simp
  have "strip x = strip ?y" by (simp add: strip_def)
  also have "\<dots> = c # rev (dropWhile isspace (rev t))"
    using strip_Cons_nonspace [OF c] ct by simp
  finally show ?thesis using c by blast
qed

lemma split_from_shape:
  "\<exists>rest. split_from cur s = (cur @ takeWhile (\<lambda>c. c \<noteq> NL) s) # rest"
proof (induction s arbitrary: cur)
  case Nil
  show ?case by simp
next
  case (Cons a s)
  show ?case using Cons.IH [of "[]"] Cons.IH [of "cur @ [a]"] by auto
qed

lemma split_nl_nonempty: "split_nl s \<noteq> []"
  using split_from_shape [of "[]" s] by (auto simp: split_nl_def)

lemma section_company_nonempty:
  assumes "strip section \<noteq> []"
  shows "section_company section \<noteq> []"
proof -
  obtain c t where ct: "strip section = c # t" and c: "\<not> isspace c"
    using strip_nonempty_shape [OF assms] by blast
  from c have nl: "c \<noteq> NL" using isspace_NL by auto
  obtain rest where "split_nl (strip section) = takeWhile (\<lambda>c. c \<noteq> NL) (c # t) # rest"
    using split_from_shape [of "[]" "c # t"] ct by (auto simp: split_nl_def)
  then have "section_company section = strip (c # takeWhile (\<lambda>c. c \<noteq> NL) t)"
    using nl by (simp add: section_company_def)
  then show ?thesis using strip_Cons_nonspace [OF c] by simp
qed

lemma section_bullets_blank:
  "strip section = [] \<Longrightarrow> section_bullets section = []"
  by (simp add: section_bullets_def split_nl_def)

lemma section_entry_eq:
  "section_entry section =
     Inr (if section_bullets section = [] then None else Some (kept_entry section))"
proof (cases "strip section = []")
  case True
  then show ?thesis by (simp add: section_entry_def section_bullets_blank)
next
  case False
  obtain l ls where l: "split_nl (strip section) = l # ls"
    using split_nl_nonempty [of "strip section"] by (cases "split_nl (strip section)") auto
  have "section_company section \<noteq> []" using section_company_nonempty [OF False] .
  with False l show ?thesis
    by (simp add: section_entry_def first_item_def section_company_def section_bullets_def
        kept_entry_def)
qed

lemma section_loop_eq:
  "section_loop secs work =
     Inr (work @ map kept_entry (filter (\<lambda>sec. section_bullets sec \<noteq> []) secs))"
  by (induction secs arbitrary: work) (simp_all add: section_entry_eq)

lemma parse_ai_response_eq:
  "parse_ai_response s =
     Inr \<lparr>summary = remove_special (parse_summary s),
          workExperience =
            map (\<lambda>sec. strip_entry (kept_entry sec))
              (filter (\<lambda>sec. section_bullets sec \<noteq> []) (company_sections s))\<rparr>"
  by (simp add: parse_ai_response_def section_loop_eq comp_def)


lemma remove_special_set: "STAR \<notin> set (remove_special x) \<and> QUOTE \<notin> set (remove_special x)"
  by (simp add: remove_special_def)

section \<open>No asterisk and no quotation mark in the result\<close>

text \<open>
  Claim C5.  For every text, the summary that the parser returns and every bullet point
  of every entry of its work experience contain neither the character \<open>*\<close> nor the
  character \<open>"\<close>.
\<close>

theorem parse_no_special:
  assumes "parse_ai_response s = Inr r"
  shows "STAR \<notin> set (summary r) \<and> QUOTE \<notin> set (summary r) \<and>
         (\<forall>e\<in>set (workExperience r). \<forall>b\<in>set (bulletPoints e).
            STAR \<notin> set b \<and> QUOTE \<notin> set b)"
proof -
  from assms have r: "r = \<lparr>summary = remove_special (parse_summary s),
      workExperience = map (\<lambda>sec. strip_entry (kept_entry sec))
        (filter (\<lambda>sec. section_bullets sec \<noteq> []) (company_sections s))\<rparr>"
    by (simp add: parse_ai_response_eq)
  have "\<forall>b\<in>set (bulletPoints (strip_entry e)). STAR \<notin> set b \<and> QUOTE \<notin> set b" for e
    using remove_special_set by (auto simp: strip_entry_def)
  then show ?thesis using remove_special_set r by auto
qed

theorem parse_no_special_witness:
  "parse_ai_response (u ''SUMMARY: a *bold* word EXPERIENCE:'' @ [NL] @ u ''Acme'' @ [NL]
      @ u ''- Led team* of '' @ [QUOTE] @ u ''5'' @ [QUOTE])
     = Inr \<lparr>summary = u ''a bold word'',
            workExperience = [\<lparr>company = u ''Acme'', bulletPoints = [u ''Led team of 5'']\<rparr>]\<rparr>
   \<and> STAR \<notin> set (u ''a bold word'') \<and> QUOTE \<notin> set (u ''Led team of 5'')"
proof -
  have h: "parse_ai_response (u ''SUMMARY: a *bold* word EXPERIENCE:'' @ [NL] @ u ''Acme'' @ [NL]
      @ u ''- Led team* of '' @ [QUOTE] @ u ''5'' @ [QUOTE])
     = Inr \<lparr>summary = u ''a bold word'',
            workExperience = [\<lparr>company = u ''Acme'', bulletPoints = [u ''Led team of 5'']\<rparr>]\<rparr>"
    by (simp add: parser_evals)
  from parse_no_special [OF h] h show ?thesis by simp
qed

section \<open>At most four bullet points\<close>

lemma collect_bullets_eq:
  "collect_bullets ls acc = acc @ concat (map line_points ls)"
  by (induction ls arbitrary: acc) (simp_all add: line_points_def Let_def)

text \<open>
  Claim C3.  For every text, every entry of the work experience has at most four bullet
  points; and a company block in which the inner loop collects six bullet points gives an
  entry with exactly four, the first four in the order met (each after the removal of
  \<open>*\<close> and \<open>"\<close> that every bullet point undergoes).  The inner loop collects the
  bullet points of the lines after the first in the order of the lines.
\<close>

theorem bullet_cap:
  assumes "parse_ai_response s = Inr r"
  shows "(\<forall>e\<in>set (workExperience r). length (bulletPoints e) \<le> 4) \<and>
         (\<forall>sec\<in>set (company_sections s). length (section_bullets sec) = 6 \<longrightarrow>
            (\<exists>e\<in>set (workExperience r).
               company e = section_company sec \<and> length (bulletPoints e) = 4 \<and>
               bulletPoints e = map remove_special (take 4 (section_bullets sec)))) \<and>
         (\<forall>sec. section_bullets sec =
            concat (map line_points (drop 1 (split_nl (strip sec)))))"
proof -
  let ?kept = "filter (\<lambda>sec. section_bullets sec \<noteq> []) (company_sections s)"
  from assms have w: "workExperience r = map (\<lambda>sec. strip_entry (kept_entry sec)) ?kept"
    by (auto simp: parse_ai_response_eq)
  have cap: "\<forall>e\<in>set (workExperience r). length (bulletPoints e) \<le> 4"
    unfolding w by (simp add: strip_entry_def kept_entry_def)
  have six: "\<exists>e\<in>set (workExperience r).
               company e = section_company sec \<and> length (bulletPoints e) = 4 \<and>
               bulletPoints e = map remove_special (take 4 (section_bullets sec))"
    if sec: "sec \<in> set (company_sections s)" and len: "length (section_bullets sec) = 6" for sec
  proof -
    from len have "section_bullets sec \<noteq> []" by auto
    with sec have "strip_entry (kept_entry sec) \<in> set (workExperience r)"
      unfolding w by simp
    moreover have "company (strip_entry (kept_entry sec)) = section_company sec"
      by (simp add: strip_entry_def kept_entry_def)
    moreover have "bulletPoints (strip_entry (kept_entry sec))
        = map remove_special (take 4 (section_bullets sec))"
      by (simp add: strip_entry_def kept_entry_def)
    moreover have "length (map remove_special (take 4 (section_bullets sec))) = 4"
      using len by simp
    ultimately show ?thesis by metis
  qed
  have order: "\<forall>sec. section_bullets sec =
      concat (map line_points (drop 1 (split_nl (strip sec))))"
    by (simp add: section_bullets_def collect_bullets_eq)
  from cap six order show ?thesis by blast
qed


theorem bullet_cap_witness:
  "parse_ai_response (u ''EXPERIENCE:'' @ [NL] @ u ''Acme'' @ [NL, BULLET] @ u '' one'' @ [NL, BULLET]
      @ u '' two'' @ [NL, BULLET] @ u '' three'' @ [NL, BULLET] @ u '' four'' @ [NL, BULLET]
      @ u '' five'' @ [NL, BULLET] @ u '' six'')
     = Inr \<lparr>summary = [],
            workExperience = [\<lparr>company = u ''Acme'',
               bulletPoints = [u ''one'', u ''two'', u ''three'', u ''four'']\<rparr>]\<rparr>
   \<and> company_sections (u ''EXPERIENCE:'' @ [NL] @ u ''Acme'' @ [NL, BULLET] @ u '' one'' @ [NL, BULLET]
      @ u '' two'' @ [NL, BULLET] @ u '' three'' @ [NL, BULLET] @ u '' four'' @ [NL, BULLET]
      @ u '' five'' @ [NL, BULLET] @ u '' six'')
     = [u ''Acme'' @ [NL, BULLET] @ u '' one'' @ [NL, BULLET]
      @ u '' two'' @ [NL, BULLET] @ u '' three'' @ [NL, BULLET] @ u '' four'' @ [NL, BULLET]
      @ u '' five'' @ [NL, BULLET] @ u '' six'']
   \<and> section_bullets (u ''Acme'' @ [NL, BULLET] @ u '' one'' @ [NL, BULLET]
      @ u '' two'' @ [NL, BULLET] @ u '' three'' @ [NL, BULLET] @ u '' four'' @ [NL, BULLET]
      @ u '' five'' @ [NL, BULLET] @ u '' six'')
     = [u ''one'', u ''two'', u ''three'', u ''four'', u ''five'', u ''six'']
   \<and> length [u ''one'', u ''two'', u ''three'', u ''four''] \<le> (4::nat)
   \<and> [u ''one'', u ''two'', u ''three'', u ''four''] = map remove_special (take 4
         [u ''one'', u ''two'', u ''three'', u ''four'', u ''five'', u ''six''])"
proof -
  let ?sec = "u ''Acme'' @ [NL, BULLET] @ u '' one'' @ [NL, BULLET]
      @ u '' two'' @ [NL, BULLET] @ u '' three'' @ [NL, BULLET] @ u '' four'' @ [NL, BULLET]
      @ u '' five'' @ [NL, BULLET] @ u '' six''"
  let ?entry = "\<lparr>company = u ''Acme'',
               bulletPoints = [u ''one'', u ''two'', u ''three'', u ''four'']\<rparr>"
  let ?res = "\<lparr>summary = [], workExperience = [?entry]\<rparr>"
  have h: "parse_ai_response (u ''EXPERIENCE:'' @ [NL] @ ?sec) = Inr ?res"
    by (simp add: parser_evals)
  have c: "company_sections (u ''EXPERIENCE:'' @ [NL] @ ?sec) = [?sec]"
    by (simp add: parser_evals)
  have b: "section_bullets ?sec = [u ''one'', u ''two'', u ''three'', u ''four'', u ''five'', u ''six'']"
    by (simp add: parser_evals)
  have m: "?sec \<in> set (company_sections (u ''EXPERIENCE:'' @ [NL] @ ?sec))"
    unfolding c by simp
  have l: "length (section_bullets ?sec) = 6"
    unfolding b by simp
  from bullet_cap [OF h] have "\<forall>e\<in>set (workExperience ?res). length (bulletPoints e) \<le> 4"
    by blast
  then have cap: "length (bulletPoints ?entry) \<le> 4"
    by simp
  from bullet_cap [OF h] m l have "\<exists>e\<in>set (workExperience ?res).
      company e = section_company ?sec \<and> length (bulletPoints e) = 4 \<and>
      bulletPoints e = map remove_special (take 4 (section_bullets ?sec))"
    by blast
  then have six: "bulletPoints ?entry = map remove_special (take 4 (section_bullets ?sec))"
    by simp
  from cap have q1: "length [u ''one'', u ''two'', u ''three'', u ''four''] \<le> (4::nat)"
    by simp
  from six have q2: "[u ''one'', u ''two'', u ''three'', u ''four''] = map remove_special (take 4
         [u ''one'', u ''two'', u ''three'', u ''four'', u ''five'', u ''six''])"
    unfolding b by simp
  from h c b q1 q2 show ?thesis by blast
qed

section \<open>An empty bullet point in the result\<close>

text \<open>
  Claim C10.  The test that drops a bullet line without content runs before the removal
  of \<open>*\<close> and \<open>"\<close>.  In the block below the line \<open>- *\<close> has the content \<open>*\<close>, which
  passes the test, and the removal then leaves the empty string as a bullet point of the
  result.
\<close>

theorem empty_bullet_after_special_removal:
  "section_bullets (u ''Acme'' @ [NL] @ u ''- *'' @ [NL] @ u ''- real'') = [u ''*'', u ''real'']
   \<and> parse_ai_response (u ''EXPERIENCE:'' @ [NL] @ u ''Acme'' @ [NL] @ u ''- *'' @ [NL] @ u ''- real'')
     = Inr \<lparr>summary = [],
            workExperience = [\<lparr>company = u ''Acme'', bulletPoints = [[], u ''real'']\<rparr>]\<rparr>"
  by (simp add: parser_evals)

section \<open>A text without markers\<close>

lemma ci_prefix_iff:
  "ci_prefix m s \<longleftrightarrow> (\<exists>mid post. s = mid @ post \<and> list_all2 ci_char m mid)"
proof (induction m s rule: ci_prefix.induct)
  case (1 s)
  show ?case by simp
next
  case (2 p ps)
  show ?case by (simp add: list_all2_Cons1)
next
  case (3 p ps c cs)
  show ?case
  proof
    assume "ci_prefix (p # ps) (c # cs)"
    with 3 obtain mid post where "cs = mid @ post" "list_all2 ci_char ps mid" "ci_char p c"
      by auto
    then have "c # cs = (c # mid) @ post \<and> list_all2 ci_char (p # ps) (c # mid)" by simp
    then show "\<exists>mid post. c # cs = mid @ post \<and> list_all2 ci_char (p # ps) mid" by blast
  next
    assume "\<exists>mid post. c # cs = mid @ post \<and> list_all2 ci_char (p # ps) mid"
    then obtain mid post where m: "c # cs = mid @ post" "list_all2 ci_char (p # ps) mid" by blast
    then obtain d mid' where d: "mid = d # mid'" "ci_char p d" "list_all2 ci_char ps mid'"
      by (auto simp: list_all2_Cons1)
    with m have "c = d" "cs = mid' @ post" by auto
    with d 3 show "ci_prefix (p # ps) (c # cs)" by auto
  qed
qed

lemma contains_ci_iff:
  "contains_ci m s \<longleftrightarrow> (\<exists>pre mid post. s = pre @ mid @ post \<and> list_all2 ci_char m mid)"
proof (induction s)
  case Nil
  show ?case by (auto simp: ci_prefix_iff)
next
  case (Cons c cs)
  show ?case
  proof
    assume "contains_ci m (c # cs)"
    then consider "ci_prefix m (c # cs)" | "contains_ci m cs" by auto
    then show "\<exists>pre mid post. c # cs = pre @ mid @ post \<and> list_all2 ci_char m mid"
    proof cases
      case 1
      then obtain mid post where "c # cs = [] @ mid @ post \<and> list_all2 ci_char m mid"
        by (auto simp: ci_prefix_iff)
      then show ?thesis by blast
    next
      case 2
      with Cons obtain pre mid post where "cs = pre @ mid @ post" "list_all2 ci_char m mid"
        by blast
      then have "c # cs = (c # pre) @ mid @ post \<and> list_all2 ci_char m mid" by simp
      then show ?thesis by blast
    qed
  next
    assume "\<exists>pre mid post. c # cs = pre @ mid @ post \<and> list_all2 ci_char m mid"
    then obtain pre mid post where p: "c # cs = pre @ mid @ post" "list_all2 ci_char m mid"
      by blast
    show "contains_ci m (c # cs)"
    proof (cases pre)
      case Nil
      with p have "ci_prefix m (c # cs)" by (auto simp: ci_prefix_iff)
      then show ?thesis by simp
    next
      case (Cons d pre')
      with p have "cs = pre' @ mid @ post" by simp
      with p Cons.IH have "contains_ci m cs" by blast
      then show ?thesis by simp
    qed
  qed
qed

lemma search_after_None: "search_after m s = None \<longleftrightarrow> \<not> contains_ci m s"
  by (induction s) auto

text \<open>
  Claim C1.  For every text the parser returns a result and raises nothing (the only
  operation of the source that can raise on a \<open>str\<close>, \<open>lines[0]\<close>, never meets an empty
  list); and for a text that contains neither \<open>SUMMARY:\<close> nor \<open>EXPERIENCE:\<close> in any
  letter case, the result is the empty summary with the empty work experience.
\<close>

theorem parse_total:
  "(\<exists>r. parse_ai_response s = Inr r) \<and>
   (\<not> contains_ci SUMMARY_MARK s \<and> \<not> contains_ci EXPERIENCE_MARK s \<longrightarrow>
      parse_ai_response s = Inr \<lparr>summary = [], workExperience = []\<rparr>)"
proof -
  have "parse_ai_response s = Inr \<lparr>summary = [], workExperience = []\<rparr>"
    if "\<not> contains_ci SUMMARY_MARK s" and "\<not> contains_ci EXPERIENCE_MARK s"
  proof -
    from that have "search_after SUMMARY_MARK s = None" "search_after EXPERIENCE_MARK s = None"
      by (simp_all add: search_after_None)
    then have "parse_summary s = []" "company_sections s = []"
      by (simp_all add: parse_summary_def company_sections_def)
    then show ?thesis
      by (simp add: parse_ai_response_eq remove_special_def)
  qed
  then show ?thesis by (simp add: parse_ai_response_eq)
qed

theorem parse_total_witness:
  "\<not> contains_ci SUMMARY_MARK (u ''Dear team, no sections here.'') \<and>
   \<not> contains_ci EXPERIENCE_MARK (u ''Dear team, no sections here.'') \<and>
   parse_ai_response (u ''Dear team, no sections here.'')
     = Inr \<lparr>summary = [], workExperience = []\<rparr>"
proof -
  have a: "\<not> contains_ci SUMMARY_MARK (u ''Dear team, no sections here.'')"
    by (simp add: parser_evals)
  have b: "\<not> contains_ci EXPERIENCE_MARK (u ''Dear team, no sections here.'')"
    by (simp add: parser_evals)
  from parse_total [of "u ''Dear team, no sections here.''"] a b show ?thesis by blast
qed


section \<open>The blocks that are kept\<close>

lemma collect_bullets_no_empty:
  "[] \<notin> set acc \<Longrightarrow> [] \<notin> set (collect_bullets ls acc)"
  by (induction ls arbitrary: acc) (simp_all add: Let_def)

lemma section_bullets_no_empty: "[] \<notin> set (section_bullets sec)"
  by (simp add: section_bullets_def collect_bullets_no_empty)

lemma kept_filter:
  "filter (\<lambda>sec. section_bullets sec \<noteq> []) secs =
   filter (\<lambda>sec. strip sec \<noteq> [] \<and> section_company sec \<noteq> [] \<and> section_bullets sec \<noteq> []) secs"
proof (rule filter_cong [OF refl])
  fix sec
  show "(section_bullets sec \<noteq> []) =
        (strip sec \<noteq> [] \<and> section_company sec \<noteq> [] \<and> section_bullets sec \<noteq> [])"
    using section_bullets_blank [of sec] section_company_nonempty [of sec] by blast
qed

text \<open>
  Claim C6.  For every text, every entry of the work experience has a non-empty company
  name and at least one bullet point.  The entries are, in order, the blocks that are not
  blank, whose trimmed first line is not empty and that yield at least one bullet point:
  every other block is discarded.  A line whose content after the marker is empty adds
  nothing to the bullet points of its block, so none of these is the empty string before
  the final pass.
\<close>

theorem kept_blocks:
  assumes "parse_ai_response s = Inr r"
  shows "(\<forall>e\<in>set (workExperience r). company e \<noteq> [] \<and> bulletPoints e \<noteq> []) \<and>
         list_all2 (\<lambda>e sec. company e = section_company sec \<and>
                      length (bulletPoints e) = min 4 (length (section_bullets sec)))
           (workExperience r)
           (filter (\<lambda>sec. strip sec \<noteq> [] \<and> section_company sec \<noteq> [] \<and>
                      section_bullets sec \<noteq> []) (company_sections s)) \<and>
         (\<forall>sec. [] \<notin> set (section_bullets sec)) \<and>
         (\<forall>l ls acc. strip (drop 1 (strip l)) = [] \<longrightarrow>
            collect_bullets (l # ls) acc = collect_bullets ls acc)"
proof -
  let ?all = "\<lambda>sec. strip sec \<noteq> [] \<and> section_company sec \<noteq> [] \<and> section_bullets sec \<noteq> []"
  let ?kept = "filter ?all (company_sections s)"
  from assms have w: "workExperience r = map (\<lambda>sec. strip_entry (kept_entry sec)) ?kept"
    by (auto simp: parse_ai_response_eq kept_filter)
  have a: "\<forall>e\<in>set (workExperience r). company e \<noteq> [] \<and> bulletPoints e \<noteq> []"
    unfolding w by (auto simp: strip_entry_def kept_entry_def)
  have b: "list_all2 (\<lambda>e sec. company e = section_company sec \<and>
                      length (bulletPoints e) = min 4 (length (section_bullets sec)))
           (workExperience r) ?kept"
    unfolding w by (simp add: list_all2_map1 list_all2_same strip_entry_def kept_entry_def min.commute)
  have c: "\<forall>l ls acc. strip (drop 1 (strip l)) = [] \<longrightarrow>
            collect_bullets (l # ls) acc = collect_bullets ls acc"
    by (simp add: Let_def)
  from a b c section_bullets_no_empty show ?thesis by blast
qed

theorem kept_blocks_witness:
  "parse_ai_response (u ''EXPERIENCE:'' @ [NL] @ u ''Acme'' @ [NL] @ u ''Beta'' @ [NL] @ u ''- ''
      @ [NL] @ u ''- did x'')
     = Inr \<lparr>summary = [],
            workExperience = [\<lparr>company = u ''Beta'', bulletPoints = [u ''did x'']\<rparr>]\<rparr>
   \<and> company_sections (u ''EXPERIENCE:'' @ [NL] @ u ''Acme'' @ [NL] @ u ''Beta'' @ [NL] @ u ''- ''
      @ [NL] @ u ''- did x'')
     = [u ''Acme'', u ''Beta'' @ [NL] @ u ''- '' @ [NL] @ u ''- did x'']
   \<and> section_bullets (u ''Acme'') = []
   \<and> u ''Beta'' \<noteq> [] \<and> [u ''did x''] \<noteq> []
   \<and> strip (drop 1 (strip (u ''- ''))) = []
   \<and> collect_bullets [u ''- '', u ''- did x''] [] = collect_bullets [u ''- did x''] []"
proof -
  let ?inp = "u ''EXPERIENCE:'' @ [NL] @ u ''Acme'' @ [NL] @ u ''Beta'' @ [NL] @ u ''- ''
      @ [NL] @ u ''- did x''"
  let ?entry = "\<lparr>company = u ''Beta'', bulletPoints = [u ''did x'']\<rparr>"
  let ?res = "\<lparr>summary = [], workExperience = [?entry]\<rparr>"
  have h: "parse_ai_response ?inp = Inr ?res"
    by (simp add: parser_evals)
  have c: "company_sections ?inp = [u ''Acme'', u ''Beta'' @ [NL] @ u ''- '' @ [NL] @ u ''- did x'']"
    by (simp add: parser_evals)
  have z: "section_bullets (u ''Acme'') = []"
    by (simp add: parser_evals)
  have e: "strip (drop 1 (strip (u ''- ''))) = []"
    by (simp add: parser_evals)
  from kept_blocks [OF h] have "\<forall>e\<in>set (workExperience ?res). company e \<noteq> [] \<and> bulletPoints e \<noteq> []"
    by blast
  then have a: "u ''Beta'' \<noteq> [] \<and> [u ''did x''] \<noteq> []"
    by simp
  from kept_blocks [OF h] e
  have d: "collect_bullets [u ''- '', u ''- did x''] [] = collect_bullets [u ''- did x''] []"
    by blast
  from h c z a e d show ?thesis by blast
qed

section \<open>The company name is left as it is\<close>

text \<open>
  Claim C9.  The final pass changes the summary and the bullet points only: the company
  names of the result are those of the entries built by the loop, and each is the trimmed
  first line of its block, whatever characters it holds (an asterisk or a quotation mark
  stays in it).
\<close>

theorem company_untouched:
  assumes "section_loop (company_sections s) [] = Inr work"
    and "parse_ai_response s = Inr r"
  shows "map company (workExperience r) = map company work \<and>
         map company (workExperience r) =
           map section_company (filter (\<lambda>sec. section_bullets sec \<noteq> []) (company_sections s))"
proof -
  from assms(1) have work: "work = map kept_entry
      (filter (\<lambda>sec. section_bullets sec \<noteq> []) (company_sections s))"
    by (simp add: section_loop_eq)
  from assms(2) have w: "workExperience r = map strip_entry work"
    unfolding work by (auto simp: parse_ai_response_eq)
  have "map company (map strip_entry work) = map company work"
    by (simp add: strip_entry_def)
  moreover have "map company work =
      map section_company (filter (\<lambda>sec. section_bullets sec \<noteq> []) (company_sections s))"
    unfolding work by (simp add: kept_entry_def)
  ultimately show ?thesis unfolding w by simp
qed


theorem company_untouched_witness:
  "section_loop (company_sections (u ''EXPERIENCE:'' @ [NL] @ u ''Ac*me '' @ [QUOTE] @ u ''Inc''
      @ [QUOTE, NL] @ u ''- did *x*'')) []
     = Inr [\<lparr>company = u ''Ac*me '' @ [QUOTE] @ u ''Inc'' @ [QUOTE],
              bulletPoints = [u ''did *x*'']\<rparr>]
   \<and> parse_ai_response (u ''EXPERIENCE:'' @ [NL] @ u ''Ac*me '' @ [QUOTE] @ u ''Inc''
      @ [QUOTE, NL] @ u ''- did *x*'')
     = Inr \<lparr>summary = [],
            workExperience = [\<lparr>company = u ''Ac*me '' @ [QUOTE] @ u ''Inc'' @ [QUOTE],
              bulletPoints = [u ''did x'']\<rparr>]\<rparr>
   \<and> map company [\<lparr>company = u ''Ac*me '' @ [QUOTE] @ u ''Inc'' @ [QUOTE],
              bulletPoints = [u ''did x'']\<rparr>]
     = map company [\<lparr>company = u ''Ac*me '' @ [QUOTE] @ u ''Inc'' @ [QUOTE],
              bulletPoints = [u ''did *x*'']\<rparr>]
   \<and> STAR \<in> set (u ''Ac*me '' @ [QUOTE] @ u ''Inc'' @ [QUOTE])
   \<and> QUOTE \<in> set (u ''Ac*me '' @ [QUOTE] @ u ''Inc'' @ [QUOTE])"
proof -
  let ?inp = "u ''EXPERIENCE:'' @ [NL] @ u ''Ac*me '' @ [QUOTE] @ u ''Inc''
      @ [QUOTE, NL] @ u ''- did *x*''"
  let ?name = "u ''Ac*me '' @ [QUOTE] @ u ''Inc'' @ [QUOTE]"
  let ?work = "[\<lparr>company = ?name, bulletPoints = [u ''did *x*'']\<rparr>]"
  let ?res = "\<lparr>summary = [],
            workExperience = [\<lparr>company = ?name, bulletPoints = [u ''did x'']\<rparr>]\<rparr>"
  have w: "section_loop (company_sections ?inp) [] = Inr ?work"
    by (simp add: parser_evals)
  have h: "parse_ai_response ?inp = Inr ?res"
    by (simp add: parser_evals)
  from company_untouched [OF w h]
  have m: "map company (workExperience ?res) = map company ?work"
    by blast
  then have m': "map company [\<lparr>company = ?name, bulletPoints = [u ''did x'']\<rparr>] = map company ?work"
    by simp
  have s: "STAR \<in> set ?name" "QUOTE \<in> set ?name"
    by (simp_all add: u_def chars)
  from w h m' s show ?thesis by blast
qed

section \<open>The summary\<close>

lemma trimmed_strip: "trimmed (strip x)"
proof (cases "strip x = []")
  case True
  then show ?thesis by (simp add: trimmed_def)
next
  case False
  then obtain c t where ct: "strip x = c # t" and c: "\<not> isspace c"
    using strip_nonempty_shape by blast
  let ?z = "dropWhile isspace (rev (dropWhile isspace x))"
  have z: "?z \<noteq> []" using False by (simp add: strip_def)
  have "last (strip x) = hd ?z" unfolding strip_def by (rule last_rev)
  moreover have "\<not> isspace (hd ?z)" using hd_dropWhile [OF z] .
  ultimately show ?thesis using ct c by (simp add: trimmed_def)
qed

lemma last_dropWhile: "dropWhile P xs \<noteq> [] \<Longrightarrow> last (dropWhile P xs) = last xs"
proof -
  assume n: "dropWhile P xs \<noteq> []"
  have "last xs = last (takeWhile P xs @ dropWhile P xs)" by simp
  also have "\<dots> = last (dropWhile P xs)" using n by (rule last_appendR)
  finally show ?thesis by simp
qed

lemma trimmed_dropWhile:
  assumes "t = [] \<or> \<not> isspace (last t)"
  shows "trimmed (dropWhile isspace t)"
proof (cases "dropWhile isspace t")
  case Nil
  show ?thesis unfolding trimmed_def Nil by simp
next
  case (Cons d ds)
  then have n: "dropWhile isspace t \<noteq> []" by simp
  then have "t \<noteq> []" by auto
  with assms have "\<not> isspace (last (dropWhile isspace t))"
    using last_dropWhile [OF n] by simp
  moreover have "\<not> isspace d" using hd_dropWhile [OF n] Cons by simp
  ultimately show ?thesis using Cons by (simp add: trimmed_def)
qed

lemma trimmed_remove_leading_bullet:
  assumes "trimmed x"
  shows "trimmed (remove_leading_bullet x)"
proof (cases x)
  case Nil
  then show ?thesis by (simp add: remove_leading_bullet_def startswith_def trimmed_def)
next
  case (Cons c t)
  with assms have c: "\<not> isspace c" and l: "\<not> isspace (last (c # t))"
    by (simp_all add: trimmed_def)
  from l have "t = [] \<or> \<not> isspace (last t)" by (cases t) auto
  then have "trimmed (dropWhile isspace t)" by (rule trimmed_dropWhile)
  with assms Cons c show ?thesis
    by (simp add: remove_leading_bullet_def startswith_def Let_def)
qed

lemma collapse_spaces_last:
  "x \<noteq> [] \<Longrightarrow> \<not> isspace (last x) \<Longrightarrow>
     collapse_spaces x \<noteq> [] \<and> last (collapse_spaces x) = last x"
proof (induction x rule: collapse_spaces.induct)
  case 1
  then show ?case by simp
next
  case (2 c cs)
  show ?case
  proof (cases "isspace c")
    case True
    with 2 have cs: "cs \<noteq> []" by auto
    with 2 have lcs: "\<not> isspace (last cs)" by simp
    have n: "dropWhile isspace cs \<noteq> []"
    proof
      assume "dropWhile isspace cs = []"
      then have "\<forall>x\<in>set cs. isspace x" by (simp add: dropWhile_eq_Nil_conv)
      with cs have "isspace (last cs)" by simp
      with lcs show False by simp
    qed
    have ld: "last (dropWhile isspace cs) = last cs" using last_dropWhile [OF n] .
    from 2(1) [OF True n] ld lcs
    have "collapse_spaces (dropWhile isspace cs) \<noteq> [] \<and>
          last (collapse_spaces (dropWhile isspace cs)) = last cs" by simp
    with True cs show ?thesis by simp
  next
    case False
    show ?thesis
    proof (cases "cs = []")
      case True
      with False show ?thesis by simp
    next
      case n: False
      with 2 have "\<not> isspace (last cs)" by simp
      from 2(2) [OF False n this] False n show ?thesis by simp
    qed
  qed
qed

lemma collapse_spaces_Cons_nonspace:
  "\<not> isspace c \<Longrightarrow> collapse_spaces (c # cs) = c # collapse_spaces cs"
  by simp

lemma trimmed_collapse_spaces:
  assumes "trimmed x"
  shows "trimmed (collapse_spaces x)"
proof (cases x)
  case Nil
  then show ?thesis by (simp add: trimmed_def)
next
  case (Cons c t)
  with assms have c: "\<not> isspace c" and l: "\<not> isspace (last x)"
    by (simp_all add: trimmed_def)
  from Cons have "x \<noteq> []" by simp
  from collapse_spaces_last [OF this l] l
  have "\<not> isspace (last (collapse_spaces x))" by simp
  with c Cons show ?thesis by (simp add: trimmed_def)
qed

lemma single_spaced_collapse_spaces: "single_spaced (collapse_spaces x)"
proof (induction x rule: collapse_spaces.induct)
  case 1
  show ?case by simp
next
  case (2 c cs)
  show ?case
  proof (cases "isspace c")
    case True
    have "case collapse_spaces (dropWhile isspace cs) of [] \<Rightarrow> True | d # _ \<Rightarrow> \<not> isspace d"
    proof (cases "dropWhile isspace cs")
      case Nil
      show ?thesis unfolding Nil by simp
    next
      case (Cons d ds)
      then have "\<not> isspace d" using hd_dropWhile [of isspace cs] by simp
      with Cons show ?thesis by simp
    qed
    with 2(1) [OF True] True show ?thesis by simp
  next
    case False
    with 2(2) [OF False] show ?thesis by simp
  qed
qed

lemma parse_summary_normal: "trimmed (parse_summary s) \<and> single_spaced (parse_summary s)"
proof (cases "search_after SUMMARY_MARK s")
  case None
  then show ?thesis by (simp add: parse_summary_def trimmed_def)
next
  case (Some rest)
  have "trimmed (collapse_spaces (remove_leading_bullet (strip (summary_group rest))))"
    by (intro trimmed_collapse_spaces trimmed_remove_leading_bullet trimmed_strip)
  with Some show ?thesis by (simp add: parse_summary_def single_spaced_collapse_spaces)
qed


lemma not_isspace_BULLET: "\<not> isspace BULLET"
  by (simp add: isspace_def BULLET_def)

lemma remove_leading_bullet_BULLET:
  "remove_leading_bullet (BULLET # t) = dropWhile isspace t"
  by (simp add: remove_leading_bullet_def startswith_def not_isspace_BULLET)

lemma remove_leading_bullet_other:
  assumes "trimmed g" and "\<not> startswith g BULLET"
  shows "remove_leading_bullet g = g"
proof (cases g)
  case Nil
  then show ?thesis by (simp add: remove_leading_bullet_def startswith_def)
next
  case (Cons c t)
  with assms(1) have "\<not> isspace c" by (simp add: trimmed_def)
  with assms(2) Cons show ?thesis
    by (simp add: remove_leading_bullet_def startswith_def)
qed

text \<open>
  Claim C4, as the code has it.  The summary of the result is the normalised summary
  without its \<open>*\<close> and \<open>"\<close> characters, so it holds no \<open>*\<close>.  The normalised summary is
  the captured span, trimmed; without its first character and the whitespace after it
  when that character is the bullet (U+2022), unchanged otherwise; with every run of
  whitespace replaced by one space.  It has no whitespace at either end and no two
  adjacent whitespace characters.  Nothing is said of \<open>-\<close>, of a bullet that is not the
  first character, or of the spaces left around a removed \<open>*\<close>.
\<close>

theorem summary_normalised:
  assumes "parse_ai_response s = Inr r"
  shows "STAR \<notin> set (summary r) \<and> summary r = remove_special (parse_summary s) \<and>
         trimmed (parse_summary s) \<and> single_spaced (parse_summary s) \<and>
         (\<forall>rest t. search_after SUMMARY_MARK s = Some rest \<and>
                   strip (summary_group rest) = BULLET # t \<longrightarrow>
            parse_summary s = collapse_spaces (dropWhile isspace t)) \<and>
         (\<forall>rest. search_after SUMMARY_MARK s = Some rest \<and>
                 \<not> startswith (strip (summary_group rest)) BULLET \<longrightarrow>
            parse_summary s = collapse_spaces (strip (summary_group rest)))"
proof -
  from assms have a: "summary r = remove_special (parse_summary s)"
    by (auto simp: parse_ai_response_eq)
  then have b: "STAR \<notin> set (summary r)"
    using remove_special_set by simp
  have c: "parse_summary s = collapse_spaces (dropWhile isspace t)"
    if "search_after SUMMARY_MARK s = Some rest" and "strip (summary_group rest) = BULLET # t"
    for rest t
    using that by (simp add: parse_summary_def remove_leading_bullet_BULLET)
  have d: "parse_summary s = collapse_spaces (strip (summary_group rest))"
    if "search_after SUMMARY_MARK s = Some rest"
      and "\<not> startswith (strip (summary_group rest)) BULLET" for rest
    using that remove_leading_bullet_other [OF trimmed_strip that(2)]
    by (simp add: parse_summary_def)
  from a b c d parse_summary_normal [of s] show ?thesis by blast
qed

theorem summary_normalised_witness:
  "parse_ai_response (u ''Summary:'' @ [NL, BULLET] @ u '' Seasoned   engineer'' @ [NL]
       @ u ''with *range*'' @ [NL, NL] @ u ''Experience:'' @ [NL] @ u ''Acme'')
     = Inr \<lparr>summary = u ''Seasoned engineer with range'', workExperience = []\<rparr>
   \<and> search_after SUMMARY_MARK (u ''Summary:'' @ [NL, BULLET] @ u '' Seasoned   engineer'' @ [NL]
       @ u ''with *range*'' @ [NL, NL] @ u ''Experience:'' @ [NL] @ u ''Acme'')
     = Some ([NL, BULLET] @ u '' Seasoned   engineer'' @ [NL]
       @ u ''with *range*'' @ [NL, NL] @ u ''Experience:'' @ [NL] @ u ''Acme'')
   \<and> strip (summary_group ([NL, BULLET] @ u '' Seasoned   engineer'' @ [NL]
       @ u ''with *range*'' @ [NL, NL] @ u ''Experience:'' @ [NL] @ u ''Acme''))
     = BULLET # u '' Seasoned   engineer'' @ [NL] @ u ''with *range*''
   \<and> parse_summary (u ''Summary:'' @ [NL, BULLET] @ u '' Seasoned   engineer'' @ [NL]
       @ u ''with *range*'' @ [NL, NL] @ u ''Experience:'' @ [NL] @ u ''Acme'')
     = collapse_spaces (dropWhile isspace (u '' Seasoned   engineer'' @ [NL] @ u ''with *range*''))
   \<and> STAR \<notin> set (u ''Seasoned engineer with range'')
   \<and> trimmed (parse_summary (u ''Summary:'' @ [NL, BULLET] @ u '' Seasoned   engineer'' @ [NL]
       @ u ''with *range*'' @ [NL, NL] @ u ''Experience:'' @ [NL] @ u ''Acme''))"
proof -
  let ?inp = "u ''Summary:'' @ [NL, BULLET] @ u '' Seasoned   engineer'' @ [NL]
       @ u ''with *range*'' @ [NL, NL] @ u ''Experience:'' @ [NL] @ u ''Acme''"
  let ?rest = "[NL, BULLET] @ u '' Seasoned   engineer'' @ [NL]
       @ u ''with *range*'' @ [NL, NL] @ u ''Experience:'' @ [NL] @ u ''Acme''"
  let ?t = "u '' Seasoned   engineer'' @ [NL] @ u ''with *range*''"
  let ?res = "\<lparr>summary = u ''Seasoned engineer with range'', workExperience = []\<rparr>"
  have h: "parse_ai_response ?inp = Inr ?res"
    by (simp add: parser_evals)
  have f: "search_after SUMMARY_MARK ?inp = Some ?rest"
    by (simp add: parser_evals)
  have g: "strip (summary_group ?rest) = BULLET # ?t"
    by (simp add: parser_evals)
  from summary_normalised [OF h] f g
  have p: "parse_summary ?inp = collapse_spaces (dropWhile isspace ?t)"
    by blast
  from summary_normalised [OF h] have "STAR \<notin> set (summary ?res)"
    by blast
  then have n: "STAR \<notin> set (u ''Seasoned engineer with range'')"
    by simp
  from summary_normalised [OF h] have t: "trimmed (parse_summary ?inp)"
    by blast
  from h f g p n t show ?thesis by blast
qed

text \<open>
  The claim as the specification states it fails: a leading \<open>-\<close> stays in the summary,
  a bullet at the start of a later line stays, and the removal of \<open>*\<close> after the
  whitespace has been collapsed leaves two adjacent spaces, or a space at the start.
\<close>

theorem summary_markers_counterexample:
  "parse_ai_response (u ''SUMMARY: - first * second'')
     = Inr \<lparr>summary = u ''- first  second'', workExperience = []\<rparr>
   \<and> parse_ai_response (u ''SUMMARY: one'' @ [NL, BULLET] @ u '' two'')
     = Inr \<lparr>summary = u ''one '' @ [BULLET] @ u '' two'', workExperience = []\<rparr>
   \<and> parse_ai_response (u ''SUMMARY: * starred'')
     = Inr \<lparr>summary = u '' starred'', workExperience = []\<rparr>"
  by (simp add: parser_evals)

section \<open>A request without the resume or the job description\<close>

lemma request_fields_object:
  "request_fields (JObj kvs) =
     (if kvs = [] then Inr None
      else case map_of kvs (u ''resume'') of
             None \<Rightarrow> Inr None
           | Some resume_data \<Rightarrow>
               (case map_of kvs (u ''jobDescription'') of
                  None \<Rightarrow> Inr None
                | Some job_description \<Rightarrow> Inr (Some (resume_data, job_description))))"
  by (auto simp: request_fields_def pybind_def split: option.splits)

lemma request_fields_no_keys:
  "\<not> has_both_keys data \<Longrightarrow> request_fields data = Inr (Some p) \<Longrightarrow> False"
proof (cases data)
  case (JObj kvs)
  assume "\<not> has_both_keys data" "request_fields data = Inr (Some p)"
  with JObj show False
    by (auto simp: request_fields_object has_both_keys_def split: if_splits option.splits)
qed (auto simp: request_fields_def pybind_def split: if_splits)

lemma no_call_without_fields:
  assumes "\<And>p. request_fields data \<noteq> Inr (Some p)"
  shows "snd (analyze_resume py_str exc_str create openai_api_key data) = []"
proof (cases "request_fields data")
  case (Inl e)
  then show ?thesis by (simp add: analyze_resume_def)
next
  case (Inr x)
  with assms have "x = None" by (cases x) auto
  with Inr show ?thesis by (simp add: analyze_resume_def)
qed

text \<open>
  Claim C8, as the code has it.  When the decoded body is not a \<open>dict\<close> with both keys,
  the handler makes no call to the completion API, whatever the configuration.  When
  moreover the API key is configured and the body is a \<open>dict\<close>, the response has status
  400 and its body has the field \<open>error\<close>.
\<close>

theorem missing_key_rejected:
  "(\<not> has_both_keys data \<longrightarrow>
      snd (analyze_resume py_str exc_str create openai_api_key data) = []) \<and>
   (openai_api_key = Some k \<and> k \<noteq> [] \<and> data = JObj kvs \<and> \<not> has_both_keys data \<longrightarrow>
      status (fst (analyze_resume py_str exc_str create openai_api_key data)) = 400 \<and>
      map_of (body (fst (analyze_resume py_str exc_str create openai_api_key data))) (u ''error'')
        \<noteq> None)"
proof -
  have a: "snd (analyze_resume py_str exc_str create openai_api_key data) = []"
    if "\<not> has_both_keys data"
    using request_fields_no_keys [OF that] by (intro no_call_without_fields) blast
  have b: "status (fst (analyze_resume py_str exc_str create openai_api_key data)) = 400 \<and>
      map_of (body (fst (analyze_resume py_str exc_str create openai_api_key data))) (u ''error'')
        \<noteq> None"
    if "openai_api_key = Some k" "k \<noteq> []" "data = JObj kvs" "\<not> has_both_keys data"
  proof -
    from that(3,4) have "request_fields data = Inr None"
      by (auto simp: request_fields_object has_both_keys_def split: option.splits)
    with that(1,2) show ?thesis by (simp add: analyze_resume_def)
  qed
  from a b show ?thesis by blast
qed

theorem missing_key_rejected_witness:
  "\<not> has_both_keys (JObj [(u ''resume'', JObj [])]) \<and>
   analyze_resume (\<lambda>v. []) (\<lambda>e. []) (\<lambda>r j. Content []) (Some (u ''sk-test''))
       (JObj [(u ''resume'', JObj [])])
     = (\<lparr>status = 400,
         body = [(u ''error'', JStr (u ''Missing resume or job description data''))]\<rparr>, [])"
proof -
  let ?data = "JObj [(u ''resume'', JObj [])]"
  let ?run = "analyze_resume (\<lambda>v. []) (\<lambda>e. []) (\<lambda>r j. Content []) (Some (u ''sk-test'')) ?data"
  have n: "\<not> has_both_keys ?data"
    by (simp add: has_both_keys_def u_def)
  have k: "u ''sk-test'' \<noteq> []"
    by (simp add: u_def)
  from missing_key_rejected [of ?data "\<lambda>v. []" "\<lambda>e. []" "\<lambda>r j. Content []" "Some (u ''sk-test'')"
      "u ''sk-test''" "[(u ''resume'', JObj [])]"] n k
  have "snd ?run = [] \<and> status (fst ?run) = 400" by blast
  moreover have "?run = (\<lparr>status = 400,
         body = [(u ''error'', JStr (u ''Missing resume or job description data''))]\<rparr>, [])"
    by (simp add: json_evals u_def)
  ultimately show ?thesis using n by blast
qed

text \<open>
  The claim as the specification states it fails: the test of the API key comes first, so
  without a key a body that lacks \<open>jobDescription\<close> is answered with 500; and a body
  that is a number has no keys, and the membership test on it raises, which the handler
  answers with 500.
\<close>

theorem missing_key_counterexample:
  "status (fst (analyze_resume (\<lambda>v. []) (\<lambda>e. []) (\<lambda>r j. Content []) None
       (JObj [(u ''resume'', JObj [])]))) = 500
   \<and> status (fst (analyze_resume (\<lambda>v. []) (\<lambda>e. []) (\<lambda>r j. Content []) (Some (u ''sk-test''))
       (JInt 5))) = 500"
  by (simp add: json_evals u_def)

section \<open>Sequences of blocks\<close>

lemma pybind_Inr_iff: "pybind x f = Inr b \<longleftrightarrow> (\<exists>a. x = Inr a \<and> f a = Inr b)"
  by (cases x) (simp_all add: pybind_def)

lemma seq_lines_map_Inr: "seq_lines (map Inr as) = Inr (concat as)"
  by (induction as) simp_all

lemma seq_lines_Inr_iff: "seq_lines xs = Inr ls \<longleftrightarrow> (\<exists>as. xs = map Inr as \<and> ls = concat as)"
proof
  show "seq_lines xs = Inr ls \<Longrightarrow> \<exists>as. xs = map Inr as \<and> ls = concat as"
  proof (induction xs arbitrary: ls)
    case Nil
    then show ?case by simp
  next
    case (Cons x xs)
    from Cons.prems obtain a b where x: "x = Inr a" and b: "seq_lines xs = Inr b" and ls: "ls = a @ b"
      by (auto split: sum.splits)
    from Cons.IH [OF b] obtain as where "xs = map Inr as" "b = concat as" by blast
    with x ls have "x # xs = map Inr (a # as) \<and> ls = concat (a # as)" by simp
    then show ?case by (rule exI [of _ "a # as"])
  qed
next
  show "\<exists>as. xs = map Inr as \<and> ls = concat as \<Longrightarrow> seq_lines xs = Inr ls"
    by (auto simp: seq_lines_map_Inr)
qed

lemma labelled_obj:
  "labelled py_str (JObj kvs) lk =
     Inr [fst lk @ fstr py_str (case map_of kvs (snd lk) of None \<Rightarrow> JStr NA | Some v \<Rightarrow> v)]"
  by (simp add: labelled_def pybind_def)

section \<open>The lines of a block and the section labels\<close>

lemma seq_lines_member:
  assumes "seq_lines xs = Inr ls" and "Inr a \<in> set xs"
  shows "set a \<subseteq> set ls"
proof -
  from assms(1) obtain as where xs: "xs = map Inr as" and ls: "ls = concat as"
    unfolding seq_lines_Inr_iff by blast
  from assms(2) xs have "a \<in> set as" by auto
  with ls show ?thesis by auto
qed

lemma seq_lines_all:
  assumes "seq_lines xs = Inr ls" and "l \<in> set ls"
  obtains a where "Inr a \<in> set xs" and "l \<in> set a"
proof -
  from assms(1) obtain as where xs: "xs = map Inr as" and ls: "ls = concat as"
    unfolding seq_lines_Inr_iff by blast
  from assms(2) ls obtain a where "a \<in> set as" "l \<in> set a" by auto
  with xs that show ?thesis by auto
qed

lemma header_plain:
  "lk \<in> set header_fields \<Longrightarrow> fst lk @ x \<notin> set section_labels"
  by (auto simp: field_defs label_defs u_def)

lemma no_NL_header:
  "lk \<in> set header_fields \<Longrightarrow> NL \<notin> set (fst lk @ NA)"
  by (auto simp: field_defs NA_def NL_def u_def)

lemma empty_plain: "[] \<notin> set section_labels"
  by (simp add: label_defs u_def)

lemma dash_plain: "u ''- '' @ x \<notin> set section_labels"
  by (simp add: label_defs u_def)

lemma descriptions_label_plain: "u ''Descriptions:'' \<notin> set section_labels"
  by (simp add: label_defs u_def)

lemma labelled_plain:
  assumes "labelled py_str obj lk = Inr ls" and "lk \<in> set header_fields" and "l \<in> set ls"
  shows "l \<notin> set section_labels"
proof -
  from assms(1) obtain v where "ls = [fst lk @ fstr py_str v]"
    by (auto simp: labelled_def pybind_Inr_iff)
  with assms(3) header_plain [OF assms(2)] show ?thesis by simp
qed

lemma descriptions_plain:
  assumes "descriptions_lines py_str e = Inr ls" and "l \<in> set ls"
  shows "l \<notin> set section_labels"
proof -
  from assms(1) have "ls = [] \<or> (\<exists>items. ls = u ''Descriptions:'' # map (description_line py_str) items)"
    by (auto simp: descriptions_lines_def pybind_Inr_iff split: if_splits)
  with assms(2) show ?thesis
    using dash_plain descriptions_label_plain by (auto simp: description_line_def)
qed

lemma entry_plain:
  assumes "entry_lines py_str header e = Inr ls" and "set header \<subseteq> set header_fields"
    and "l \<in> set ls"
  shows "l \<notin> set section_labels"
proof -
  from assms(1) have s: "seq_lines (map (labelled py_str e) header
      @ [descriptions_lines py_str e, Inr [[]]]) = Inr ls"
    by (simp add: entry_lines_def)
  from s assms(3) obtain a where a: "Inr a \<in> set (map (labelled py_str e) header
      @ [descriptions_lines py_str e, Inr [[]]])" and l: "l \<in> set a"
    by (rule seq_lines_all)
  from a consider lk where "lk \<in> set header" "labelled py_str e lk = Inr a"
    | "descriptions_lines py_str e = Inr a" | "a = [[]]"
    by auto
  then show ?thesis
  proof cases
    case 1
    with assms(2) l show ?thesis using labelled_plain by blast
  next
    case 2
    with l show ?thesis using descriptions_plain by blast
  next
    case 3
    with l show ?thesis using empty_plain by simp
  qed
qed

lemma for_entries_plain:
  assumes "for_lines (entry_lines py_str header) items = Inr ls"
    and "set header \<subseteq> set header_fields" and "l \<in> set ls"
  shows "l \<notin> set section_labels"
proof -
  from assms(1) have "seq_lines (map (entry_lines py_str header) items) = Inr ls"
    by (simp add: for_lines_def)
  from this assms(3) obtain a where "Inr a \<in> set (map (entry_lines py_str header) items)"
    and l: "l \<in> set a"
    by (rule seq_lines_all)
  then obtain e where "entry_lines py_str header e = Inr a" by auto
  from entry_plain [OF this assms(2) l] show ?thesis .
qed

lemma filter_plain:
  "(\<And>l. l \<in> set ls \<Longrightarrow> l \<notin> set section_labels) \<Longrightarrow>
     filter (\<lambda>l. l \<in> set section_labels) ls = []"
  by (simp add: filter_empty_conv)

lemma list_section_labels:
  assumes "list_section py_str key label header (JObj kvs) = Inr ls"
    and "set header \<subseteq> set header_fields" and "label \<in> set section_labels"
  shows "filter (\<lambda>l. l \<in> set section_labels) ls = (if nonempty kvs key then [label] else [])"
proof (cases "map_of kvs key")
  case None
  with assms(1) show ?thesis by (simp add: list_section_def pybind_def nonempty_def)
next
  case (Some v)
  show ?thesis
  proof (cases "truthy v")
    case False
    with Some assms(1) show ?thesis by (simp add: list_section_def pybind_def nonempty_def)
  next
    case True
    with Some assms(1) obtain items where
      "seq_lines [Inr [label], for_lines (entry_lines py_str header) items] = Inr ls"
      by (auto simp: list_section_def pybind_Inr_iff)
    then obtain b where b: "for_lines (entry_lines py_str header) items = Inr b"
      and ls: "ls = label # b"
      by (auto split: sum.splits)
    have "filter (\<lambda>l. l \<in> set section_labels) b = []"
      by (rule filter_plain) (rule for_entries_plain [OF b assms(2)])
    with ls assms(3) Some True show ?thesis by (simp add: nonempty_def)
  qed
qed

lemma profile_labels:
  assumes "profile_lines py_str (JObj kvs) = Inr ls"
  shows "filter (\<lambda>l. l \<in> set section_labels) ls
           = (if present kvs (u ''profile'') then [PROFILE_LABEL] else [])"
proof (cases "map_of kvs (u ''profile'')")
  case None
  with assms show ?thesis by (simp add: profile_lines_def pybind_def present_def)
next
  case (Some v)
  with assms have "seq_lines (Inr [PROFILE_LABEL] # map (labelled py_str v) profile_fields
                    @ [Inr [[]]]) = Inr ls"
    by (simp add: profile_lines_def pybind_def)
  then obtain b where b: "seq_lines (map (labelled py_str v) profile_fields @ [Inr [[]]]) = Inr b"
    and ls: "ls = PROFILE_LABEL # b"
    by (auto split: sum.splits)
  have "l \<notin> set section_labels" if "l \<in> set b" for l
  proof -
    from b that obtain a where a: "Inr a \<in> set (map (labelled py_str v) profile_fields @ [Inr [[]]])"
      and l: "l \<in> set a"
      by (rule seq_lines_all)
    from a consider lk where "lk \<in> set profile_fields" "labelled py_str v lk = Inr a" | "a = [[]]"
      by auto
    then show ?thesis
    proof cases
      case 1
      from 1(1) have "lk \<in> set header_fields" by (simp add: header_fields_def)
      from labelled_plain [OF 1(2) this l] show ?thesis .
    next
      case 2
      with l show ?thesis using empty_plain by simp
    qed
  qed
  then have "filter (\<lambda>l. l \<in> set section_labels) b = []" by (rule filter_plain)
  with ls Some show ?thesis by (simp add: present_def section_labels_def)
qed

lemma featured_plain:
  assumes "featured_lines py_str sk = Inr ls" and "l \<in> set ls"
  shows "l \<notin> set section_labels"
proof -
  from assms(1) have "ls = [] \<or> (\<exists>items. for_lines (featured_line py_str) items = Inr ls)"
    by (auto simp: featured_lines_def pybind_Inr_iff split: if_splits)
  with assms(2) obtain items where "seq_lines (map (featured_line py_str) items) = Inr ls"
    by (auto simp: for_lines_def)
  from this assms(2) obtain a where "Inr a \<in> set (map (featured_line py_str) items)"
    and l: "l \<in> set a"
    by (rule seq_lines_all)
  then obtain skill where "featured_line py_str skill = Inr a" by auto
  then have "a = [] \<or> (\<exists>x. a = [u ''- '' @ x])"
    by (auto simp: featured_line_def pybind_Inr_iff split: if_splits)
  with l show ?thesis using dash_plain by auto
qed

lemma skill_description_plain:
  assumes "skill_description_lines py_str sk = Inr ls" and "l \<in> set ls"
  shows "l \<notin> set section_labels"
proof -
  from assms(1) have "ls = [] \<or> (\<exists>items. ls = map (description_line py_str) items)"
    by (auto simp: skill_description_lines_def pybind_Inr_iff split: if_splits)
  with assms(2) show ?thesis using dash_plain by (auto simp: description_line_def)
qed

lemma skills_labels:
  assumes "skills_lines py_str (JObj kvs) = Inr ls"
  shows "filter (\<lambda>l. l \<in> set section_labels) ls
           = (if present kvs (u ''skills'') then [SKILLS_LABEL] else [])"
proof (cases "map_of kvs (u ''skills'')")
  case None
  with assms show ?thesis by (simp add: skills_lines_def pybind_def present_def)
next
  case (Some sk)
  with assms have "seq_lines [Inr [SKILLS_LABEL], featured_lines py_str sk,
                    skill_description_lines py_str sk, Inr [[]]] = Inr ls"
    by (simp add: skills_lines_def pybind_def)
  then obtain f d where f: "featured_lines py_str sk = Inr f"
    and d: "skill_description_lines py_str sk = Inr d"
    and ls: "ls = SKILLS_LABEL # f @ d @ [[]]"
    by (auto split: sum.splits)
  have "filter (\<lambda>l. l \<in> set section_labels) f = []"
    by (rule filter_plain) (rule featured_plain [OF f])
  moreover have "filter (\<lambda>l. l \<in> set section_labels) d = []"
    by (rule filter_plain) (rule skill_description_plain [OF d])
  ultimately show ?thesis using ls Some empty_plain
    by (simp add: present_def section_labels_def)
qed


lemma header_subsets:
  "set profile_fields \<subseteq> set header_fields" "set work_fields \<subseteq> set header_fields"
  "set education_fields \<subseteq> set header_fields" "set project_fields \<subseteq> set header_fields"
  by (auto simp: header_fields_def)

lemma formatted_lines_blocks:
  assumes "formatted_lines py_str r = Inr lines"
  obtains a b c d e where
    "profile_lines py_str r = Inr a"
    "list_section py_str (u ''workExperiences'') WORK_LABEL work_fields r = Inr b"
    "list_section py_str (u ''educations'') EDUCATION_LABEL education_fields r = Inr c"
    "skills_lines py_str r = Inr d"
    "list_section py_str (u ''projects'') PROJECTS_LABEL project_fields r = Inr e"
    "lines = a @ b @ c @ d @ e"
  using assms by (auto simp: formatted_lines_def split: sum.splits)

lemma emitted_labels:
  "filter (section_emitted kvs) section_labels =
     (if present kvs (u ''profile'') then [PROFILE_LABEL] else []) @
     (if nonempty kvs (u ''workExperiences'') then [WORK_LABEL] else []) @
     (if nonempty kvs (u ''educations'') then [EDUCATION_LABEL] else []) @
     (if present kvs (u ''skills'') then [SKILLS_LABEL] else []) @
     (if nonempty kvs (u ''projects'') then [PROJECTS_LABEL] else [])"
proof -
  have d: "PROFILE_LABEL \<noteq> WORK_LABEL" "PROFILE_LABEL \<noteq> EDUCATION_LABEL"
    "PROFILE_LABEL \<noteq> SKILLS_LABEL" "PROFILE_LABEL \<noteq> PROJECTS_LABEL"
    "WORK_LABEL \<noteq> EDUCATION_LABEL" "WORK_LABEL \<noteq> SKILLS_LABEL" "WORK_LABEL \<noteq> PROJECTS_LABEL"
    "EDUCATION_LABEL \<noteq> SKILLS_LABEL" "EDUCATION_LABEL \<noteq> PROJECTS_LABEL"
    "SKILLS_LABEL \<noteq> PROJECTS_LABEL"
    by (simp_all add: label_defs u_def)
  have e: "section_emitted kvs PROFILE_LABEL = present kvs (u ''profile'')"
    "section_emitted kvs WORK_LABEL = nonempty kvs (u ''workExperiences'')"
    "section_emitted kvs EDUCATION_LABEL = nonempty kvs (u ''educations'')"
    "section_emitted kvs SKILLS_LABEL = present kvs (u ''skills'')"
    "section_emitted kvs PROJECTS_LABEL = nonempty kvs (u ''projects'')"
    using d by (auto simp: section_emitted_def)
  show ?thesis unfolding section_labels_def by (simp add: e)
qed

lemma formatted_labels:
  assumes "formatted_lines py_str (JObj kvs) = Inr lines"
  shows "filter (\<lambda>l. l \<in> set section_labels) lines = filter (section_emitted kvs) section_labels"
proof -
  from assms obtain a b c d e where
    a: "profile_lines py_str (JObj kvs) = Inr a" and
    b: "list_section py_str (u ''workExperiences'') WORK_LABEL work_fields (JObj kvs) = Inr b" and
    c: "list_section py_str (u ''educations'') EDUCATION_LABEL education_fields (JObj kvs) = Inr c" and
    d: "skills_lines py_str (JObj kvs) = Inr d" and
    e: "list_section py_str (u ''projects'') PROJECTS_LABEL project_fields (JObj kvs) = Inr e" and
    lines: "lines = a @ b @ c @ d @ e"
    by (rule formatted_lines_blocks)
  have m: "WORK_LABEL \<in> set section_labels" "EDUCATION_LABEL \<in> set section_labels"
    "PROJECTS_LABEL \<in> set section_labels"
    by (simp_all add: section_labels_def)
  show ?thesis
    unfolding lines filter_append emitted_labels profile_labels [OF a] skills_labels [OF d]
      list_section_labels [OF b header_subsets(2) m(1)]
      list_section_labels [OF c header_subsets(3) m(2)]
      list_section_labels [OF e header_subsets(4) m(3)]
    by (rule refl)
qed

lemma distinct_section_labels: "distinct section_labels"
  by (simp add: label_defs u_def)

lemma count_list_distinct_member:
  "distinct xs \<Longrightarrow> x \<in> set xs \<Longrightarrow> count_list xs x = 1"
  by (induction xs) auto

lemma count_from_filter:
  assumes "filter (\<lambda>l. l \<in> set labels) lines = filter keep labels"
    and "distinct labels" and "label \<in> set labels"
  shows "count_list lines label = (if keep label then 1 else 0)"
proof -
  have "count_list lines label = length (filter ((=) label) lines)"
    by (rule count_list_eq_length_filter)
  also have "filter ((=) label) lines = filter ((=) label) (filter (\<lambda>l. l \<in> set labels) lines)"
    using assms(3) by (auto simp: filter_filter intro: filter_cong)
  also have "\<dots> = filter ((=) label) (filter keep labels)"
    by (simp only: assms(1))
  also have "length \<dots> = count_list (filter keep labels) label"
    by (simp add: count_list_eq_length_filter)
  also have "\<dots> = (if keep label then 1 else 0)"
  proof (cases "keep label")
    case True
    with assms(3) have "label \<in> set (filter keep labels)" by simp
    moreover from assms(2) have "distinct (filter keep labels)" by simp
    ultimately have "count_list (filter keep labels) label = 1"
      by (rule count_list_distinct_member [rotated])
    with True show ?thesis by simp
  next
    case False
    then have "label \<notin> set (filter keep labels)" by simp
    with False show ?thesis by simp
  qed
  finally show ?thesis .
qed

lemma labelled_missing:
  "map_of e (snd lk) = None \<Longrightarrow> labelled py_str (JObj e) lk = Inr [fst lk @ NA]"
  by (simp add: labelled_obj fstr_def)

lemma profile_na:
  assumes "profile_lines py_str (JObj kvs) = Inr ls"
    and "map_of kvs (u ''profile'') = Some (JObj p)"
    and "lk \<in> set profile_fields" and "map_of p (snd lk) = None"
  shows "fst lk @ NA \<in> set ls"
proof -
  from assms(1,2) have s: "seq_lines ([Inr [PROFILE_LABEL]]
      @ map (labelled py_str (JObj p)) profile_fields @ [Inr [[]]]) = Inr ls"
    by (simp add: profile_lines_def pybind_def)
  from assms(3) have "labelled py_str (JObj p) lk \<in> set ([Inr [PROFILE_LABEL]]
      @ map (labelled py_str (JObj p)) profile_fields @ [Inr [[]]])"
    by simp
  then have "Inr [fst lk @ NA] \<in> set ([Inr [PROFILE_LABEL]]
      @ map (labelled py_str (JObj p)) profile_fields @ [Inr [[]]])"
    by (simp only: labelled_missing [OF assms(4)])
  from seq_lines_member [OF s this] show ?thesis by simp
qed

lemma entry_na:
  assumes "entry_lines py_str header (JObj e) = Inr a"
    and "lk \<in> set header" and "map_of e (snd lk) = None"
  shows "fst lk @ NA \<in> set a"
proof -
  from assms(1) have s: "seq_lines (map (labelled py_str (JObj e)) header
      @ [descriptions_lines py_str (JObj e), Inr [[]]]) = Inr a"
    by (simp add: entry_lines_def)
  from assms(2) have "labelled py_str (JObj e) lk \<in> set (map (labelled py_str (JObj e)) header
      @ [descriptions_lines py_str (JObj e), Inr [[]]])"
    by simp
  then have "Inr [fst lk @ NA] \<in> set (map (labelled py_str (JObj e)) header
      @ [descriptions_lines py_str (JObj e), Inr [[]]])"
    by (simp only: labelled_missing [OF assms(3)])
  from seq_lines_member [OF s this] show ?thesis by simp
qed

lemma list_section_na:
  assumes "list_section py_str key label header (JObj kvs) = Inr ls"
    and "map_of kvs key = Some (JArr es)" and "JObj e \<in> set es"
    and "lk \<in> set header" and "map_of e (snd lk) = None"
  shows "fst lk @ NA \<in> set ls"
proof -
  from assms(3) have "es \<noteq> []" by auto
  with assms(1,2) have "seq_lines [Inr [label], for_lines (entry_lines py_str header) es] = Inr ls"
    by (simp add: list_section_def pybind_def)
  then obtain b where b: "seq_lines (map (entry_lines py_str header) es) = Inr b"
    and ls: "ls = label # b"
    by (auto simp: for_lines_def split: sum.splits)
  from b obtain as where as: "map (entry_lines py_str header) es = map Inr as"
    unfolding seq_lines_Inr_iff by blast
  from assms(3) have "entry_lines py_str header (JObj e) \<in> set (map (entry_lines py_str header) es)"
    by simp
  with as obtain a where a: "entry_lines py_str header (JObj e) = Inr a" by auto
  with assms(3) have "Inr a \<in> set (map (entry_lines py_str header) es)" by force
  from seq_lines_member [OF b this] entry_na [OF a assms(4,5)] ls show ?thesis by auto
qed


lemma formatted_na_profile:
  assumes "formatted_lines py_str (JObj kvs) = Inr lines"
    and "map_of kvs (u ''profile'') = Some (JObj p)"
    and "lk \<in> set profile_fields" and "map_of p (snd lk) = None"
  shows "fst lk @ NA \<in> set lines"
proof -
  from assms(1) obtain a b c d e where
    a: "profile_lines py_str (JObj kvs) = Inr a" and lines: "lines = a @ b @ c @ d @ e"
    by (rule formatted_lines_blocks)
  from profile_na [OF a assms(2,3,4)] lines show ?thesis by simp
qed

lemma formatted_na_entries:
  assumes "formatted_lines py_str (JObj kvs) = Inr lines"
    and "(key, header) \<in> set entry_sections"
    and "map_of kvs key = Some (JArr es)" and "JObj e \<in> set es"
    and "lk \<in> set header" and "map_of e (snd lk) = None"
  shows "fst lk @ NA \<in> set lines"
proof -
  from assms(1) obtain a b c d e' where
    b: "list_section py_str (u ''workExperiences'') WORK_LABEL work_fields (JObj kvs) = Inr b" and
    c: "list_section py_str (u ''educations'') EDUCATION_LABEL education_fields (JObj kvs) = Inr c" and
    e: "list_section py_str (u ''projects'') PROJECTS_LABEL project_fields (JObj kvs) = Inr e'" and
    lines: "lines = a @ b @ c @ d @ e'"
    by (rule formatted_lines_blocks)
  from assms(2) consider "key = u ''workExperiences''" "header = work_fields"
    | "key = u ''educations''" "header = education_fields"
    | "key = u ''projects''" "header = project_fields"
    by (auto simp: entry_sections_def)
  then show ?thesis
  proof cases
    case 1
    with list_section_na [OF b _ assms(4) _ assms(6)] assms(3,5) lines show ?thesis by simp
  next
    case 2
    with list_section_na [OF c _ assms(4) _ assms(6)] assms(3,5) lines show ?thesis by simp
  next
    case 3
    with list_section_na [OF e _ assms(4) _ assms(6)] assms(3,5) lines show ?thesis by simp
  qed
qed

lemma split_from_append_NL:
  "split_from cur (x @ NL # y) = split_from cur x @ split_from [] y"
  by (induction x arbitrary: cur) simp_all

lemma split_from_no_NL: "NL \<notin> set l \<Longrightarrow> split_from cur l = [cur @ l]"
  by (induction l arbitrary: cur) simp_all

lemma line_in_output:
  "l \<in> set lines \<Longrightarrow> NL \<notin> set l \<Longrightarrow> l \<in> set (split_nl (join_nl lines))"
proof (induction lines rule: join_nl.induct)
  case 1
  then show ?case by simp
next
  case (2 x)
  then show ?case by (simp add: split_nl_def split_from_no_NL)
next
  case (3 x y ys)
  show ?case
  proof (cases "l = x")
    case True
    with 3(3) show ?thesis by (simp add: split_nl_def split_from_append_NL split_from_no_NL)
  next
    case False
    with 3(2) have "l \<in> set (y # ys)" by simp
    from 3(1) [OF this 3(3)] show ?thesis
      by (simp add: split_nl_def split_from_append_NL)
  qed
qed

section \<open>The resumes on which the formatter raises\<close>

lemma seq_lines_isl: "isl (seq_lines xs) \<longleftrightarrow> (\<exists>x\<in>set xs. isl x)"
  by (induction xs) (auto split: sum.splits)

lemma for_lines_isl: "isl (for_lines f xs) \<longleftrightarrow> (\<exists>x\<in>set xs. isl (f x))"
  by (simp add: for_lines_def seq_lines_isl)

lemma labelled_isl: "isl (labelled py_str obj lk) \<longleftrightarrow> \<not> is_obj obj"
  by (cases obj) (simp_all add: labelled_def pybind_def is_obj_def)

lemma descriptions_lines_isl:
  "isl (descriptions_lines py_str (JObj kvs)) \<longleftrightarrow>
     \<not> field_ok kvs (u ''descriptions'') (falsy_or iterable)"
proof (cases "map_of kvs (u ''descriptions'')")
  case None
  then show ?thesis by (simp add: descriptions_lines_def pybind_def field_ok_def)
next
  case (Some v)
  then show ?thesis
    by (cases v)
      (simp_all add: descriptions_lines_def pybind_def field_ok_def falsy_or_def iterable_def)
qed

lemma entry_lines_isl:
  assumes "header \<noteq> []"
  shows "isl (entry_lines py_str header e) \<longleftrightarrow> \<not> ok_entry e"
proof (cases "is_obj e")
  case True
  then obtain kvs where e: "e = JObj kvs" by (cases e) (auto simp: is_obj_def)
  show ?thesis unfolding e
    by (simp add: entry_lines_def seq_lines_isl labelled_isl is_obj_def descriptions_lines_isl
        ok_entry_def del: seq_lines.simps)
next
  case False
  from assms have "hd header \<in> set header" by simp
  moreover from False have "isl (labelled py_str e (hd header))" by (simp add: labelled_isl)
  ultimately have "\<exists>x\<in>set (map (labelled py_str e) header
      @ [descriptions_lines py_str e, Inr [[]]]). isl x"
    by auto
  then have "isl (entry_lines py_str header e)"
    unfolding entry_lines_def seq_lines_isl .
  moreover from False have "\<not> ok_entry e" by (cases e) (auto simp: ok_entry_def is_obj_def)
  ultimately show ?thesis by simp
qed

lemma list_section_isl:
  assumes "header \<noteq> []"
  shows "isl (list_section py_str key label header (JObj kvs)) \<longleftrightarrow>
           \<not> field_ok kvs key (falsy_or ok_entries)"
proof (cases "map_of kvs key")
  case None
  then show ?thesis by (simp add: list_section_def pybind_def field_ok_def)
next
  case (Some v)
  note e = entry_lines_isl [OF assms]
  have n: "\<not> ok_entry (JStr x)" for x by (simp add: ok_entry_def)
  from Some show ?thesis
  proof (cases v)
    case (JArr es)
    with Some show ?thesis
      by (auto simp: list_section_def pybind_def field_ok_def falsy_or_def ok_entries_def
          seq_lines_isl for_lines_isl e list_all_iff simp del: seq_lines.simps)
  next
    case (JStr s)
    with Some show ?thesis
      by (cases s)
        (auto simp: list_section_def pybind_def field_ok_def falsy_or_def ok_entries_def
          seq_lines_isl for_lines_isl e n simp del: seq_lines.simps)
  next
    case (JObj kv)
    with Some show ?thesis
      by (cases kv)
        (auto simp: list_section_def pybind_def field_ok_def falsy_or_def ok_entries_def
          seq_lines_isl for_lines_isl e n simp del: seq_lines.simps)
  qed (simp_all add: list_section_def pybind_def field_ok_def falsy_or_def ok_entries_def)
qed

lemma profile_fields_nonempty: "profile_fields \<noteq> []" "work_fields \<noteq> []"
  "education_fields \<noteq> []" "project_fields \<noteq> []"
  by (simp_all add: field_defs)

lemma profile_lines_isl:
  "isl (profile_lines py_str (JObj kvs)) \<longleftrightarrow> \<not> field_ok kvs (u ''profile'') is_obj"
proof (cases "map_of kvs (u ''profile'')")
  case None
  then show ?thesis by (simp add: profile_lines_def pybind_def field_ok_def)
next
  case (Some v)
  have "(u ''Name: '', u ''name'') \<in> set profile_fields"
    by (simp add: profile_fields_def)
  with Some show ?thesis
    by (auto simp: profile_lines_def pybind_def field_ok_def seq_lines_isl labelled_isl
        simp del: seq_lines.simps)
qed

lemma featured_line_isl: "isl (featured_line py_str skill) \<longleftrightarrow> \<not> is_obj skill"
  by (cases skill) (simp_all add: featured_line_def pybind_def is_obj_def)

lemma featured_lines_isl:
  "isl (featured_lines py_str sk) \<longleftrightarrow> \<not> key_ok (u ''featuredSkills'') ok_featured sk"
proof (cases sk)
  case (JObj kvs)
  show ?thesis
  proof (cases "map_of kvs (u ''featuredSkills'')")
    case None
    with JObj show ?thesis by (simp add: featured_lines_def pybind_def key_ok_def field_ok_def)
  next
    case (Some v)
    have n: "\<not> is_obj (JStr x)" for x by (simp add: is_obj_def)
    show ?thesis
    proof (cases v)
      case (JArr xs)
      with Some JObj show ?thesis
        by (auto simp: featured_lines_def pybind_def key_ok_def field_ok_def ok_featured_def
            for_lines_isl featured_line_isl list_all_iff)
    next
      case (JStr s)
      with Some JObj show ?thesis
        by (cases s)
          (auto simp: featured_lines_def pybind_def key_ok_def field_ok_def ok_featured_def
            for_lines_isl featured_line_isl n)
    next
      case inner: (JObj kv)
      with Some JObj show ?thesis
        by (cases kv)
          (auto simp: featured_lines_def pybind_def key_ok_def field_ok_def ok_featured_def
            for_lines_isl featured_line_isl n)
    qed (use Some JObj in \<open>simp_all add: featured_lines_def pybind_def key_ok_def field_ok_def
          ok_featured_def\<close>)
  qed
qed (simp_all add: featured_lines_def pybind_def key_ok_def)

lemma skill_description_lines_isl:
  "isl (skill_description_lines py_str sk) \<longleftrightarrow> \<not> key_ok (u ''descriptions'') iterable sk"
proof (cases sk)
  case (JObj kvs)
  show ?thesis
  proof (cases "map_of kvs (u ''descriptions'')")
    case None
    with JObj show ?thesis
      by (simp add: skill_description_lines_def pybind_def key_ok_def field_ok_def)
  next
    case (Some v)
    with JObj show ?thesis
      by (cases v)
        (simp_all add: skill_description_lines_def pybind_def key_ok_def field_ok_def
          iterable_def)
  qed
qed (simp_all add: skill_description_lines_def pybind_def key_ok_def)

lemma skills_lines_isl:
  "isl (skills_lines py_str (JObj kvs)) \<longleftrightarrow> \<not> field_ok kvs (u ''skills'') ok_skills"
proof (cases "map_of kvs (u ''skills'')")
  case None
  then show ?thesis by (simp add: skills_lines_def pybind_def field_ok_def)
next
  case (Some sk)
  then show ?thesis
    by (auto simp: skills_lines_def pybind_def field_ok_def ok_skills_def seq_lines_isl
        featured_lines_isl skill_description_lines_isl simp del: seq_lines.simps)
qed

lemma formatted_lines_isl:
  "isl (formatted_lines py_str (JObj kvs)) \<longleftrightarrow> \<not> ok_resume kvs"
  by (auto simp: formatted_lines_def seq_lines_isl profile_lines_isl skills_lines_isl
      list_section_isl profile_fields_nonempty ok_resume_def simp del: seq_lines.simps)

lemma format_resume_isl:
  "isl (format_resume_for_ai py_str (JObj kvs)) \<longleftrightarrow> \<not> ok_resume kvs"
  using formatted_lines_isl [of py_str kvs]
  by (cases "formatted_lines py_str (JObj kvs)") (simp_all add: format_resume_for_ai_def pybind_def)


section \<open>A value that is false in a condition\<close>

lemma map_of_filter_key:
  "map_of (filter (\<lambda>kv. fst kv \<noteq> key) kvs) k = (if k = key then None else map_of kvs k)"
  by (induction kvs) auto

lemma profile_lines_cong:
  "map_of kvs (u ''profile'') = map_of kvs' (u ''profile'') \<Longrightarrow>
     profile_lines py_str (JObj kvs) = profile_lines py_str (JObj kvs')"
  by (simp add: profile_lines_def pybind_def)

lemma skills_lines_cong:
  "map_of kvs (u ''skills'') = map_of kvs' (u ''skills'') \<Longrightarrow>
     skills_lines py_str (JObj kvs) = skills_lines py_str (JObj kvs')"
  by (simp add: skills_lines_def pybind_def)

lemma list_section_cong:
  "map_of kvs key = map_of kvs' key \<Longrightarrow>
     list_section py_str key label header (JObj kvs)
       = list_section py_str key label header (JObj kvs')"
  by (simp add: list_section_def pybind_def)

lemma descriptions_lines_cong:
  "map_of e (u ''descriptions'') = map_of e' (u ''descriptions'') \<Longrightarrow>
     descriptions_lines py_str (JObj e) = descriptions_lines py_str (JObj e')"
  by (simp add: descriptions_lines_def pybind_def)

lemma labelled_cong:
  "map_of e (snd lk) = map_of e' (snd lk) \<Longrightarrow>
     labelled py_str (JObj e) lk = labelled py_str (JObj e') lk"
  by (simp add: labelled_obj)

lemma list_section_nothing:
  "map_of kvs key = None \<or> (\<exists>v. map_of kvs key = Some v \<and> \<not> truthy v) \<Longrightarrow>
     list_section py_str key label header (JObj kvs) = Inr []"
  by (auto simp: list_section_def pybind_def)

lemma descriptions_lines_nothing:
  "map_of e (u ''descriptions'') = None \<or>
   (\<exists>v. map_of e (u ''descriptions'') = Some v \<and> \<not> truthy v) \<Longrightarrow>
     descriptions_lines py_str (JObj e) = Inr []"
  by (auto simp: descriptions_lines_def pybind_def)

lemma without_falsy_other:
  "k \<noteq> key \<Longrightarrow> map_of (without_falsy key kvs) k = map_of kvs k"
  by (simp add: without_falsy_def map_of_filter_key split: option.splits)

lemma without_falsy_same:
  "map_of (without_falsy key kvs) key = map_of kvs key \<or>
   map_of (without_falsy key kvs) key = None \<and> (\<exists>v. map_of kvs key = Some v \<and> \<not> truthy v)"
  by (simp add: without_falsy_def map_of_filter_key split: option.splits)

lemma list_section_without_falsy:
  "list_section py_str k label header (JObj (without_falsy key kvs))
     = list_section py_str k label header (JObj kvs)"
proof (cases "k = key")
  case False
  then show ?thesis by (intro list_section_cong without_falsy_other)
next
  case True
  from without_falsy_same [of key kvs] show ?thesis
  proof
    assume "map_of (without_falsy key kvs) key = map_of kvs key"
    with True show ?thesis by (intro list_section_cong) simp
  next
    assume a: "map_of (without_falsy key kvs) key = None \<and>
      (\<exists>v. map_of kvs key = Some v \<and> \<not> truthy v)"
    then have "list_section py_str key label header (JObj (without_falsy key kvs)) = Inr []"
      by (intro list_section_nothing) simp
    moreover from a have "list_section py_str key label header (JObj kvs) = Inr []"
      by (intro list_section_nothing) simp
    ultimately show ?thesis using True by simp
  qed
qed

lemma entry_keys:
  assumes "(key, header) \<in> set entry_sections"
  shows "key \<noteq> u ''profile''" "key \<noteq> u ''skills''"
    "key = u ''workExperiences'' \<or> key = u ''educations'' \<or> key = u ''projects''"
    "set header \<subseteq> set header_fields"
  using assms by (auto simp: entry_sections_def header_fields_def u_def)

lemma formatted_without_falsy:
  assumes "(key, header) \<in> set entry_sections"
  shows "formatted_lines py_str (JObj (without_falsy key kvs)) = formatted_lines py_str (JObj kvs)"
proof -
  have "profile_lines py_str (JObj (without_falsy key kvs)) = profile_lines py_str (JObj kvs)"
    using entry_keys(1) [OF assms] by (intro profile_lines_cong without_falsy_other) simp
  moreover
  have "skills_lines py_str (JObj (without_falsy key kvs)) = skills_lines py_str (JObj kvs)"
    using entry_keys(2) [OF assms] by (intro skills_lines_cong without_falsy_other) simp
  ultimately show ?thesis
    by (simp only: formatted_lines_def list_section_without_falsy)
qed

lemma descriptions_lines_without_falsy:
  "descriptions_lines py_str (JObj (without_falsy (u ''descriptions'') e))
     = descriptions_lines py_str (JObj e)"
proof -
  from without_falsy_same [of "u ''descriptions''" e] show ?thesis
  proof
    assume "map_of (without_falsy (u ''descriptions'') e) (u ''descriptions'')
      = map_of e (u ''descriptions'')"
    then show ?thesis by (rule descriptions_lines_cong)
  next
    assume a: "map_of (without_falsy (u ''descriptions'') e) (u ''descriptions'') = None \<and>
      (\<exists>v. map_of e (u ''descriptions'') = Some v \<and> \<not> truthy v)"
    then have "descriptions_lines py_str (JObj (without_falsy (u ''descriptions'') e)) = Inr []"
      by (intro descriptions_lines_nothing) simp
    moreover from a have "descriptions_lines py_str (JObj e) = Inr []"
      by (intro descriptions_lines_nothing) simp
    ultimately show ?thesis by simp
  qed
qed

lemma header_not_descriptions:
  "lk \<in> set header_fields \<Longrightarrow> snd lk \<noteq> u ''descriptions''"
  by (auto simp: field_defs u_def)

lemma entry_lines_without_falsy:
  assumes "set header \<subseteq> set header_fields"
  shows "entry_lines py_str header (entry_without_falsy x) = entry_lines py_str header x"
proof (cases x)
  case (JObj e)
  have m: "map (labelled py_str (JObj (without_falsy (u ''descriptions'') e))) header
      = map (labelled py_str (JObj e)) header"
  proof (rule map_cong [OF refl])
    fix lk assume "lk \<in> set header"
    with assms have "snd lk \<noteq> u ''descriptions''" using header_not_descriptions by blast
    then show "labelled py_str (JObj (without_falsy (u ''descriptions'') e)) lk
        = labelled py_str (JObj e) lk"
      by (intro labelled_cong without_falsy_other)
  qed
  show ?thesis unfolding JObj entry_without_falsy_def entry_lines_def
    by (simp only: json.case m descriptions_lines_without_falsy)
qed (simp_all add: entry_without_falsy_def)

lemma list_section_entries_without_falsy:
  assumes "set header \<subseteq> set header_fields" and "map_of kvs key = Some (JArr es)"
  shows "list_section py_str key label header
           (JObj ((key, JArr (map entry_without_falsy es)) # kvs))
         = list_section py_str key label header (JObj kvs)"
proof -
  have "for_lines (entry_lines py_str header) (map entry_without_falsy es)
      = for_lines (entry_lines py_str header) es"
    by (simp add: for_lines_def comp_def entry_lines_without_falsy [OF assms(1)])
  with assms(2) show ?thesis by (simp add: list_section_def pybind_def)
qed

lemma formatted_entries_without_falsy:
  assumes "(key, header) \<in> set entry_sections" and "map_of kvs key = Some (JArr es)"
  shows "formatted_lines py_str (JObj ((key, JArr (map entry_without_falsy es)) # kvs))
         = formatted_lines py_str (JObj kvs)"
proof -
  let ?kvs = "(key, JArr (map entry_without_falsy es)) # kvs"
  have p: "profile_lines py_str (JObj ?kvs) = profile_lines py_str (JObj kvs)"
    using entry_keys(1) [OF assms(1)] by (intro profile_lines_cong) simp
  have s: "skills_lines py_str (JObj ?kvs) = skills_lines py_str (JObj kvs)"
    using entry_keys(2) [OF assms(1)] by (intro skills_lines_cong) simp
  have l: "list_section py_str k label h (JObj ?kvs) = list_section py_str k label h (JObj kvs)"
    if "set h \<subseteq> set header_fields" for k label h
  proof (cases "k = key")
    case True
    with list_section_entries_without_falsy [OF that assms(2)] show ?thesis by simp
  next
    case False
    then show ?thesis by (intro list_section_cong) simp
  qed
  show ?thesis
    by (simp only: formatted_lines_def p s l [OF header_subsets(2)] l [OF header_subsets(3)]
        l [OF header_subsets(4)])
qed

section \<open>The formatter returns\<close>

text \<open>
  Claim C2, as the code has it.  On a resume \<open>dict\<close> the formatter returns a text,
  raising nothing, exactly when the resume has the shape \<open>ok_resume\<close>, whichever fields
  are missing; on every other resume \<open>dict\<close> it raises.  In the text returned, for every
  header field (name, e-mail, phone, location, URL and summary of the profile; company,
  job title and date of a work experience; school, degree and date of an education;
  project and date of a project) that a present profile or entry lacks, there is the line
  made of its label and \<open>N/A\<close>.  A value that is not a list but is false in a condition,
  given for the work experiences, the educations, the projects or the descriptions of an
  entry, is treated as empty: the result is the same as for the resume, or the entry,
  without that field.
\<close>

theorem formatter_returns:
  "(ok_resume kvs \<longrightarrow>
      (\<exists>out. format_resume_for_ai py_str (JObj kvs) = Inr out \<and>
         (\<forall>p lk. map_of kvs (u ''profile'') = Some (JObj p) \<and>
            lk \<in> set profile_fields \<and> map_of p (snd lk) = None \<longrightarrow>
            fst lk @ NA \<in> set (split_nl out)) \<and>
         (\<forall>key header es e lk. (key, header) \<in> set entry_sections \<and>
            map_of kvs key = Some (JArr es) \<and> JObj e \<in> set es \<and>
            lk \<in> set header \<and> map_of e (snd lk) = None \<longrightarrow>
            fst lk @ NA \<in> set (split_nl out)))) \<and>
   (\<not> ok_resume kvs \<longrightarrow> (\<exists>e. format_resume_for_ai py_str (JObj kvs) = Inl e)) \<and>
   (\<forall>key header. (key, header) \<in> set entry_sections \<longrightarrow>
      format_resume_for_ai py_str (JObj (without_falsy key kvs))
        = format_resume_for_ai py_str (JObj kvs)) \<and>
   (\<forall>key header es. (key, header) \<in> set entry_sections \<and> map_of kvs key = Some (JArr es) \<longrightarrow>
      format_resume_for_ai py_str (JObj ((key, JArr (map entry_without_falsy es)) # kvs))
        = format_resume_for_ai py_str (JObj kvs))"
proof -
  have ok: "\<exists>out. format_resume_for_ai py_str (JObj kvs) = Inr out \<and>
         (\<forall>p lk. map_of kvs (u ''profile'') = Some (JObj p) \<and>
            lk \<in> set profile_fields \<and> map_of p (snd lk) = None \<longrightarrow>
            fst lk @ NA \<in> set (split_nl out)) \<and>
         (\<forall>key header es e lk. (key, header) \<in> set entry_sections \<and>
            map_of kvs key = Some (JArr es) \<and> JObj e \<in> set es \<and>
            lk \<in> set header \<and> map_of e (snd lk) = None \<longrightarrow>
            fst lk @ NA \<in> set (split_nl out))"
    if "ok_resume kvs"
  proof -
    from that have "\<not> isl (formatted_lines py_str (JObj kvs))"
      by (simp add: formatted_lines_isl)
    then obtain lines where lines: "formatted_lines py_str (JObj kvs) = Inr lines"
      by (cases "formatted_lines py_str (JObj kvs)") auto
    then have out: "format_resume_for_ai py_str (JObj kvs) = Inr (join_nl lines)"
      by (simp add: format_resume_for_ai_def pybind_def)
    have a: "fst lk @ NA \<in> set (split_nl (join_nl lines))"
      if "map_of kvs (u ''profile'') = Some (JObj p)"
        "lk \<in> set profile_fields" "map_of p (snd lk) = None" for p lk
    proof -
      from that(2) have h: "lk \<in> set header_fields" by (simp add: header_fields_def)
      from formatted_na_profile [OF lines that] no_NL_header [OF h]
      show ?thesis by (rule line_in_output)
    qed
    have b: "fst lk @ NA \<in> set (split_nl (join_nl lines))"
      if "(key, header) \<in> set entry_sections" "map_of kvs key = Some (JArr es)"
        "JObj e \<in> set es" "lk \<in> set header" "map_of e (snd lk) = None"
      for key header es e lk
    proof -
      from that(4) entry_keys(4) [OF that(1)] have h: "lk \<in> set header_fields" by blast
      from formatted_na_entries [OF lines that] no_NL_header [OF h]
      show ?thesis by (rule line_in_output)
    qed
    from out a b show ?thesis by blast
  qed
  have bad: "\<exists>e. format_resume_for_ai py_str (JObj kvs) = Inl e" if "\<not> ok_resume kvs"
  proof -
    from that have "isl (format_resume_for_ai py_str (JObj kvs))"
      by (simp add: format_resume_isl)
    then show ?thesis by (cases "format_resume_for_ai py_str (JObj kvs)") auto
  qed
  have c: "format_resume_for_ai py_str (JObj (without_falsy key kvs))
        = format_resume_for_ai py_str (JObj kvs)"
    if "(key, header) \<in> set entry_sections" for key header
    by (simp add: format_resume_for_ai_def formatted_without_falsy [OF that])
  have d: "format_resume_for_ai py_str (JObj ((key, JArr (map entry_without_falsy es)) # kvs))
        = format_resume_for_ai py_str (JObj kvs)"
    if "(key, header) \<in> set entry_sections" "map_of kvs key = Some (JArr es)" for key header es
    by (simp add: format_resume_for_ai_def formatted_entries_without_falsy [OF that])
  from ok bad c d show ?thesis by blast
qed


theorem formatter_returns_witness:
  "ok_resume [(u ''profile'', JObj [(u ''name'', JStr (u ''A''))]),
      (u ''workExperiences'', JNull),
      (u ''educations'',
       JArr [JObj [(u ''school'', JStr (u ''MIT'')), (u ''descriptions'', JStr [])]])]
   \<and> format_resume_for_ai (\<lambda>v. [])
       (JObj [(u ''profile'', JObj [(u ''name'', JStr (u ''A''))]),
         (u ''workExperiences'', JNull),
         (u ''educations'',
          JArr [JObj [(u ''school'', JStr (u ''MIT'')), (u ''descriptions'', JStr [])]])])
     = Inr (join_nl [u ''PROFILE:'', u ''Name: A'', u ''Email: N/A'', u ''Phone: N/A'',
         u ''Location: N/A'', u ''URL: N/A'', u ''Summary: N/A'', [],
         u ''EDUCATION:'', u ''School: MIT'', u ''Degree: N/A'', u ''Date: N/A'', []])
   \<and> u ''Email: '' @ NA \<in> set (split_nl (join_nl [u ''PROFILE:'', u ''Name: A'', u ''Email: N/A'',
         u ''Phone: N/A'', u ''Location: N/A'', u ''URL: N/A'', u ''Summary: N/A'', [],
         u ''EDUCATION:'', u ''School: MIT'', u ''Degree: N/A'', u ''Date: N/A'', []]))
   \<and> u ''Degree: '' @ NA \<in> set (split_nl (join_nl [u ''PROFILE:'', u ''Name: A'',
         u ''Email: N/A'', u ''Phone: N/A'', u ''Location: N/A'', u ''URL: N/A'',
         u ''Summary: N/A'', [],
         u ''EDUCATION:'', u ''School: MIT'', u ''Degree: N/A'', u ''Date: N/A'', []]))
   \<and> \<not> ok_resume [(u ''profile'', JStr (u ''Jane''))]
   \<and> (\<exists>e. format_resume_for_ai (\<lambda>v. []) (JObj [(u ''profile'', JStr (u ''Jane''))]) = Inl e)
   \<and> format_resume_for_ai (\<lambda>v. [])
       (JObj [(u ''profile'', JObj [(u ''name'', JStr (u ''A''))]),
         (u ''educations'',
          JArr [JObj [(u ''school'', JStr (u ''MIT'')), (u ''descriptions'', JStr [])]])])
     = Inr (join_nl [u ''PROFILE:'', u ''Name: A'', u ''Email: N/A'', u ''Phone: N/A'',
         u ''Location: N/A'', u ''URL: N/A'', u ''Summary: N/A'', [],
         u ''EDUCATION:'', u ''School: MIT'', u ''Degree: N/A'', u ''Date: N/A'', []])
   \<and> format_resume_for_ai (\<lambda>v. [])
       (JObj [(u ''educations'', JArr [JObj [(u ''school'', JStr (u ''MIT''))]]),
         (u ''profile'', JObj [(u ''name'', JStr (u ''A''))]),
         (u ''workExperiences'', JNull),
         (u ''educations'',
          JArr [JObj [(u ''school'', JStr (u ''MIT'')), (u ''descriptions'', JStr [])]])])
     = Inr (join_nl [u ''PROFILE:'', u ''Name: A'', u ''Email: N/A'', u ''Phone: N/A'',
         u ''Location: N/A'', u ''URL: N/A'', u ''Summary: N/A'', [],
         u ''EDUCATION:'', u ''School: MIT'', u ''Degree: N/A'', u ''Date: N/A'', []])"
proof -
  let ?p = "[(u ''name'', JStr (u ''A''))]"
  let ?e = "[(u ''school'', JStr (u ''MIT'')), (u ''descriptions'', JStr [])]"
  let ?kvs = "[(u ''profile'', JObj ?p), (u ''workExperiences'', JNull),
               (u ''educations'', JArr [JObj ?e])]"
  let ?bad = "[(u ''profile'', JStr (u ''Jane''))]"
  let ?out = "join_nl [u ''PROFILE:'', u ''Name: A'', u ''Email: N/A'', u ''Phone: N/A'',
         u ''Location: N/A'', u ''URL: N/A'', u ''Summary: N/A'', [],
         u ''EDUCATION:'', u ''School: MIT'', u ''Degree: N/A'', u ''Date: N/A'', []]"
  note t = formatter_returns [of ?kvs "\<lambda>v. []"]
  have w: "ok_resume ?kvs"
    by (simp add: shape_evals u_def)
  have o: "format_resume_for_ai (\<lambda>v. []) (JObj ?kvs) = Inr ?out"
    by (simp add: json_evals u_def)
  from t w o
  have p: "\<forall>p lk. map_of ?kvs (u ''profile'') = Some (JObj p) \<and>
        lk \<in> set profile_fields \<and> map_of p (snd lk) = None \<longrightarrow>
        fst lk @ NA \<in> set (split_nl ?out)"
    and q: "\<forall>key header es e lk. (key, header) \<in> set entry_sections \<and>
        map_of ?kvs key = Some (JArr es) \<and> JObj e \<in> set es \<and>
        lk \<in> set header \<and> map_of e (snd lk) = None \<longrightarrow>
        fst lk @ NA \<in> set (split_nl ?out)"
    by auto
  have p1: "map_of ?kvs (u ''profile'') = Some (JObj ?p)"
    and p2: "(u ''Email: '', u ''email'') \<in> set profile_fields"
    and p3: "map_of ?p (snd (u ''Email: '', u ''email'')) = None"
    by (simp_all add: profile_fields_def u_def)
  from p p1 p2 p3 have a: "fst (u ''Email: '', u ''email'') @ NA \<in> set (split_nl ?out)"
    by blast
  have q1: "(u ''educations'', education_fields) \<in> set entry_sections"
    and q2: "map_of ?kvs (u ''educations'') = Some (JArr [JObj ?e])"
    and q3: "JObj ?e \<in> set [JObj ?e]"
    and q4: "(u ''Degree: '', u ''degree'') \<in> set education_fields"
    and q5: "map_of ?e (snd (u ''Degree: '', u ''degree'')) = None"
    by (simp_all add: entry_sections_def education_fields_def u_def)
  from q q1 q2 q3 q4 q5 have b: "fst (u ''Degree: '', u ''degree'') @ NA \<in> set (split_nl ?out)"
    by blast
  have n: "\<not> ok_resume ?bad"
    by (simp add: shape_evals u_def)
  from formatter_returns [of ?bad "\<lambda>v. []"] n
  have r: "\<exists>e. format_resume_for_ai (\<lambda>v. []) (JObj ?bad) = Inl e"
    by blast
  have c1: "(u ''workExperiences'', work_fields) \<in> set entry_sections"
    by (simp add: entry_sections_def)
  have c2: "without_falsy (u ''workExperiences'') ?kvs
      = [(u ''profile'', JObj ?p), (u ''educations'', JArr [JObj ?e])]"
    by (simp add: shape_evals u_def)
  from t c1 have "format_resume_for_ai (\<lambda>v. []) (JObj (without_falsy (u ''workExperiences'') ?kvs))
      = format_resume_for_ai (\<lambda>v. []) (JObj ?kvs)"
    by blast
  then have c: "format_resume_for_ai (\<lambda>v. [])
      (JObj [(u ''profile'', JObj ?p), (u ''educations'', JArr [JObj ?e])]) = Inr ?out"
    unfolding c2 o .
  have d2: "map entry_without_falsy [JObj ?e] = [JObj [(u ''school'', JStr (u ''MIT''))]]"
    by (simp add: shape_evals u_def)
  from t q1 q2 have "format_resume_for_ai (\<lambda>v. [])
      (JObj ((u ''educations'', JArr (map entry_without_falsy [JObj ?e])) # ?kvs))
      = format_resume_for_ai (\<lambda>v. []) (JObj ?kvs)"
    by blast
  then have d: "format_resume_for_ai (\<lambda>v. [])
      (JObj ((u ''educations'', JArr [JObj [(u ''school'', JStr (u ''MIT''))]]) # ?kvs)) = Inr ?out"
    unfolding d2 o .
  from a have a': "u ''Email: '' @ NA \<in> set (split_nl ?out)" by (simp only: fst_conv)
  from b have b': "u ''Degree: '' @ NA \<in> set (split_nl ?out)" by (simp only: fst_conv)
  from w o a' b' n r c d show ?thesis by blast
qed

text \<open>
  The claim as the specification states it fails.  The formatter has no type test: a
  profile that is a string has no \<open>get\<close>, and a number or \<open>None\<close> that is not behind a
  guard cannot be iterated.  A string given for the descriptions is neither refused nor
  treated as empty: its characters become the descriptions.  And only the header fields
  have a placeholder: missing descriptions and a featured skill without a name add no
  line.
\<close>

theorem formatter_raises_counterexample:
  "format_resume_for_ai (\<lambda>v. []) (JObj [(u ''profile'', JStr (u ''Jane''))]) = Inl AttributeError
   \<and> format_resume_for_ai (\<lambda>v. []) (JObj [(u ''workExperiences'', JInt 5)]) = Inl TypeError
   \<and> format_resume_for_ai (\<lambda>v. []) (JObj [(u ''skills'', JObj [(u ''featuredSkills'', JNull)])])
       = Inl TypeError
   \<and> formatted_lines (\<lambda>v. [])
        (JObj [(u ''projects'', JArr [JObj [(u ''descriptions'', JStr (u ''ab''))]])])
      = Inr [u ''PROJECTS:'', u ''Project: N/A'', u ''Date: N/A'', u ''Descriptions:'',
             u ''- a'', u ''- b'', []]
   \<and> formatted_lines (\<lambda>v. [])
        (JObj [(u ''educations'', JArr [JObj [(u ''school'', JStr (u ''MIT''))]])])
      = Inr [u ''EDUCATION:'', u ''School: MIT'', u ''Degree: N/A'', u ''Date: N/A'', []]
   \<and> formatted_lines (\<lambda>v. [])
        (JObj [(u ''skills'', JObj [(u ''featuredSkills'', JArr [JObj []])])])
      = Inr [u ''SKILLS:'', []]"
  by (simp add: json_evals u_def)


section \<open>Each section label once, in the fixed order\<close>

text \<open>
  Claim C7, as the code has it.  Whenever the formatter returns on a resume \<open>dict\<close>, the
  items it has appended hold the labels of exactly the emitted sections, each once, in the
  order profile, work experience, education, skills, projects: the profile and the skills
  section are emitted when their key is there, the three sections of entries when their
  key is there with a value that is not empty.  The text returned is these items joined
  by line feeds.  Every header field that a present profile or entry lacks is appended as
  its label followed by \<open>N/A\<close>.  Nothing is said of missing descriptions or featured
  skills, which add no item.
\<close>

theorem section_labels_once:
  assumes "formatted_lines py_str (JObj kvs) = Inr lines"
  shows "filter (\<lambda>l. l \<in> set section_labels) lines = filter (section_emitted kvs) section_labels \<and>
     (\<forall>label\<in>set section_labels.
        count_list lines label = (if section_emitted kvs label then 1 else 0)) \<and>
     format_resume_for_ai py_str (JObj kvs) = Inr (join_nl lines) \<and>
     (\<forall>p lk. map_of kvs (u ''profile'') = Some (JObj p) \<and>
        lk \<in> set profile_fields \<and> map_of p (snd lk) = None \<longrightarrow>
        fst lk @ NA \<in> set lines) \<and>
     (\<forall>key header es e lk. (key, header) \<in> set entry_sections \<and>
        map_of kvs key = Some (JArr es) \<and> JObj e \<in> set es \<and>
        lk \<in> set header \<and> map_of e (snd lk) = None \<longrightarrow>
        fst lk @ NA \<in> set lines)"
proof -
  note f = formatted_labels [OF assms]
  have c: "\<forall>label\<in>set section_labels.
        count_list lines label = (if section_emitted kvs label then 1 else 0)"
    using count_from_filter [OF f distinct_section_labels] by blast
  have o: "format_resume_for_ai py_str (JObj kvs) = Inr (join_nl lines)"
    using assms by (simp add: format_resume_for_ai_def pybind_def)
  from f c o formatted_na_profile [OF assms] formatted_na_entries [OF assms]
  show ?thesis by blast
qed


lemmas emitted_evals = emitted_labels present_def nonempty_def

theorem section_labels_once_witness:
  "formatted_lines (\<lambda>v. [])
       (JObj [(u ''profile'', JObj [(u ''name'', JStr (u ''A''))]),
         (u ''workExperiences'',
          JArr [JObj [(u ''company'', JStr (u ''Acme'')),
                      (u ''descriptions'', JArr [JStr (u ''did X'')])]]),
         (u ''educations'', JArr [])])
     = Inr [u ''PROFILE:'', u ''Name: A'', u ''Email: N/A'', u ''Phone: N/A'',
         u ''Location: N/A'', u ''URL: N/A'', u ''Summary: N/A'', [],
         u ''WORK EXPERIENCE:'', u ''Company: Acme'', u ''Job Title: N/A'', u ''Date: N/A'',
         u ''Descriptions:'', u ''- did X'', []]
   \<and> filter (\<lambda>l. l \<in> set section_labels)
        [u ''PROFILE:'', u ''Name: A'', u ''Email: N/A'', u ''Phone: N/A'',
         u ''Location: N/A'', u ''URL: N/A'', u ''Summary: N/A'', [],
         u ''WORK EXPERIENCE:'', u ''Company: Acme'', u ''Job Title: N/A'', u ''Date: N/A'',
         u ''Descriptions:'', u ''- did X'', []]
     = [PROFILE_LABEL, WORK_LABEL]
   \<and> count_list [u ''PROFILE:'', u ''Name: A'', u ''Email: N/A'', u ''Phone: N/A'',
         u ''Location: N/A'', u ''URL: N/A'', u ''Summary: N/A'', [],
         u ''WORK EXPERIENCE:'', u ''Company: Acme'', u ''Job Title: N/A'', u ''Date: N/A'',
         u ''Descriptions:'', u ''- did X'', []] WORK_LABEL = 1
   \<and> count_list [u ''PROFILE:'', u ''Name: A'', u ''Email: N/A'', u ''Phone: N/A'',
         u ''Location: N/A'', u ''URL: N/A'', u ''Summary: N/A'', [],
         u ''WORK EXPERIENCE:'', u ''Company: Acme'', u ''Job Title: N/A'', u ''Date: N/A'',
         u ''Descriptions:'', u ''- did X'', []] EDUCATION_LABEL = 0
   \<and> u ''Date: '' @ NA \<in> set [u ''PROFILE:'', u ''Name: A'', u ''Email: N/A'', u ''Phone: N/A'',
         u ''Location: N/A'', u ''URL: N/A'', u ''Summary: N/A'', [],
         u ''WORK EXPERIENCE:'', u ''Company: Acme'', u ''Job Title: N/A'', u ''Date: N/A'',
         u ''Descriptions:'', u ''- did X'', []]"
proof -
  let ?p = "[(u ''name'', JStr (u ''A''))]"
  let ?e = "[(u ''company'', JStr (u ''Acme'')), (u ''descriptions'', JArr [JStr (u ''did X'')])]"
  let ?kvs = "[(u ''profile'', JObj ?p), (u ''workExperiences'', JArr [JObj ?e]),
               (u ''educations'', JArr [])]"
  let ?lines = "[u ''PROFILE:'', u ''Name: A'', u ''Email: N/A'', u ''Phone: N/A'',
         u ''Location: N/A'', u ''URL: N/A'', u ''Summary: N/A'', [],
         u ''WORK EXPERIENCE:'', u ''Company: Acme'', u ''Job Title: N/A'', u ''Date: N/A'',
         u ''Descriptions:'', u ''- did X'', []]"
  have h: "formatted_lines (\<lambda>v. []) (JObj ?kvs) = Inr ?lines"
    by (simp add: json_evals u_def)
  have em: "filter (section_emitted ?kvs) section_labels = [PROFILE_LABEL, WORK_LABEL]"
    by (simp add: emitted_evals u_def)
  have w: "section_emitted ?kvs WORK_LABEL" and e: "\<not> section_emitted ?kvs EDUCATION_LABEL"
    by (simp_all add: section_emitted_def present_def nonempty_def label_defs u_def)
  have m: "WORK_LABEL \<in> set section_labels" "EDUCATION_LABEL \<in> set section_labels"
    by (simp_all add: section_labels_def)
  from section_labels_once [OF h]
  have f: "filter (\<lambda>l. l \<in> set section_labels) ?lines = filter (section_emitted ?kvs) section_labels"
    and c: "\<forall>label\<in>set section_labels.
        count_list ?lines label = (if section_emitted ?kvs label then 1 else 0)"
    and q: "\<forall>key header es e lk. (key, header) \<in> set entry_sections \<and>
        map_of ?kvs key = Some (JArr es) \<and> JObj e \<in> set es \<and>
        lk \<in> set header \<and> map_of e (snd lk) = None \<longrightarrow>
        fst lk @ NA \<in> set ?lines"
    by blast+
  from f em have f': "filter (\<lambda>l. l \<in> set section_labels) ?lines = [PROFILE_LABEL, WORK_LABEL]"
    by simp
  from c m w e have c1: "count_list ?lines WORK_LABEL = 1"
    and c0: "count_list ?lines EDUCATION_LABEL = 0"
    by auto
  have q1: "(u ''workExperiences'', work_fields) \<in> set entry_sections"
    and q2: "map_of ?kvs (u ''workExperiences'') = Some (JArr [JObj ?e])"
    and q3: "JObj ?e \<in> set [JObj ?e]"
    and q4: "(u ''Date: '', u ''date'') \<in> set work_fields"
    and q5: "map_of ?e (snd (u ''Date: '', u ''date'')) = None"
    by (simp_all add: entry_sections_def work_fields_def u_def)
  from q q1 q2 q3 q4 q5 have "fst (u ''Date: '', u ''date'') @ NA \<in> set ?lines"
    by blast
  then have n: "u ''Date: '' @ NA \<in> set ?lines"
    by (simp only: fst_conv)
  from h f' c1 c0 n show ?thesis by blast
qed

text \<open>
  The claim as the specification states it fails: an empty list of work experiences is a
  present field whose label is not emitted; an entry without descriptions gets no
  placeholder for them; and a value that holds the text of a label makes the output
  contain that text twice.
\<close>

theorem section_labels_counterexample:
  "format_resume_for_ai (\<lambda>v. []) (JObj [(u ''workExperiences'', JArr [])]) = Inr []
   \<and> formatted_lines (\<lambda>v. [])
        (JObj [(u ''workExperiences'', JArr [JObj [(u ''company'', JStr (u ''Acme''))]])])
      = Inr [u ''WORK EXPERIENCE:'', u ''Company: Acme'', u ''Job Title: N/A'',
             u ''Date: N/A'', []]
   \<and> format_resume_for_ai (\<lambda>v. [])
        (JObj [(u ''profile'', JObj [(u ''name'', JStr (u ''PROFILE:''))])])
      = Inr (join_nl [u ''PROFILE:'', u ''Name: PROFILE:'', u ''Email: N/A'', u ''Phone: N/A'',
               u ''Location: N/A'', u ''URL: N/A'', u ''Summary: N/A'', []])"
  by (simp add: json_evals u_def)

end
